theory Spec2Isabelle
  imports Main "HOL-Library.Word"
begin

unbundle bit_operations_syntax

section \<open>The sharding descriptor (sharding\_info.cpp)\<close>

text \<open>
  Machine integers of the C++ source on an LP64 platform: \<open>int\<close> and \<open>int32_t\<close> are 32-bit
  words read with \<open>sint\<close>, \<open>int64_t\<close> and \<open>long\<close> are 64-bit words read with \<open>sint\<close>,
  \<open>size_t\<close> is a 64-bit word read with \<open>unat\<close>. Arithmetic on words wraps around.
\<close>

type_synonym int32_t = "32 word"
type_synonym int64_t = "64 word"
type_synonym size_t = "64 word"

record ShardingInfo =
  shards_count :: size_t
  partitioner :: string
  sharding_algorithm :: string
  sharding_ignore_MSB :: int32_t
  shard_aware_port :: "int32_t option"
  shard_aware_port_ssl :: "int32_t option"

record ConnectionShardingInfo =
  csi_shard_id :: int32_t
  csi_sharding_info :: ShardingInfo

text \<open>
  \<open>ShardingInfo::shard_id\<close>. The token is an \<open>int64_t\<close>; the bias \<open>INT64_MIN\<close> is added with
  wrap-around; \<open>token <<= sharding_ignore_MSB_\<close> shifts by an \<open>int\<close>, which C++ leaves
  undefined for a negative count or a count of 64 or more: the model returns \<open>None\<close> there.
  Both \<open>>>\<close> act on \<open>int64_t\<close> values and are arithmetic shifts (\<open>signed_drop_bit\<close>); the
  products with the \<open>size_t\<close> count are taken modulo \<open>2^64\<close>; the cast to \<open>int32_t\<close> keeps
  the low 32 bits.
\<close>

definition shard_id :: "ShardingInfo \<Rightarrow> int64_t \<Rightarrow> int32_t option" where
  "shard_id si token0 =
     (let token1 = token0 + 0x8000000000000000;
          msb = sint (sharding_ignore_MSB si)
      in if msb < 0 \<or> 64 \<le> msb then None
         else
           let token = push_bit (nat msb) token1;
               tokLo = token AND 0xffffffff;
               tokHi = signed_drop_bit 32 token AND 0xffffffff;
               mul1 = tokLo * shards_count si;
               mul2 = tokHi * shards_count si;
               sum = signed_drop_bit 32 mul1 + mul2
           in Some (ucast (signed_drop_bit 32 sum)))"

text \<open>
  The reference computation in the words of the specification, on unbounded integers:
  remap \<open>u = (t + 2^63) mod 2^64\<close>, shift left by \<open>m\<close> with wrap, split into 32-bit halves,
  multiply each half by \<open>n\<close>, and return \<open>((mul1 >> 32) + mul2) >> 32\<close>.
\<close>

definition shard_id_reference :: "int \<Rightarrow> int \<Rightarrow> nat \<Rightarrow> int" where
  "shard_id_reference t n m =
     (let u0 = (t + 2 ^ 63) mod 2 ^ 64;
          u = (u0 * 2 ^ m) mod 2 ^ 64;
          lo = u mod 2 ^ 32;
          hi = u div 2 ^ 32;
          mul1 = lo * n;
          mul2 = hi * n
      in ((mul1 div 2 ^ 32) + mul2) div 2 ^ 32)"

definition halves :: "int \<Rightarrow> int \<Rightarrow> int" where
  "halves a n = ((a mod 2 ^ 32 * n) div 2 ^ 32 + a div 2 ^ 32 * n) div 2 ^ 32"

subsection \<open>Parsing the supported options\<close>

text \<open>
  \<open>std::atoi\<close> belongs to the C library. It is modelled as glibc implements it,
  \<open>(int) strtol(s, NULL, 10)\<close>: leading white space is skipped, one optional sign is read,
  then the longest run of decimal digits; no digits give 0; a value outside \<open>long\<close> is
  clamped, and the conversion to \<open>int\<close> keeps the low 32 bits.
\<close>

definition isspace :: "char \<Rightarrow> bool" where
  "isspace c = (c \<in> set [CHR '' '', CHR 0x09, CHR 0x0A, CHR 0x0B, CHR 0x0C, CHR 0x0D])"

definition isdigit :: "char \<Rightarrow> bool" where
  "isdigit c = (48 \<le> (of_char c :: nat) \<and> (of_char c :: nat) \<le> 57)"

fun digits_value :: "int \<Rightarrow> string \<Rightarrow> int" where
  "digits_value acc [] = acc"
| "digits_value acc (c # cs) =
     (if isdigit c then digits_value (acc * 10 + (int (of_char c) - 48)) cs else acc)"

definition clamp_long :: "int \<Rightarrow> int" where
  "clamp_long v = max (- (2 ^ 63)) (min (2 ^ 63 - 1) v)"

definition strtol10 :: "string \<Rightarrow> int" where
  "strtol10 s =
     (case dropWhile isspace s of
        [] \<Rightarrow> 0
      | c # cs \<Rightarrow>
          if c = CHR ''-'' then clamp_long (- digits_value 0 cs)
          else if c = CHR ''+'' then clamp_long (digits_value 0 cs)
          else clamp_long (digits_value 0 (c # cs)))"

definition atoi :: "string \<Rightarrow> int32_t" where
  "atoi s = word_of_int (strtol10 s)"

type_synonym StringMultimap = "string \<rightharpoonup> string list"

definition SCYLLA_SHARD_PARAM_KEY :: string where
  "SCYLLA_SHARD_PARAM_KEY = ''SCYLLA_SHARD''"

definition SCYLLA_NR_SHARDS_PARAM_KEY :: string where
  "SCYLLA_NR_SHARDS_PARAM_KEY = ''SCYLLA_NR_SHARDS''"

definition SCYLLA_PARTITIONER :: string where
  "SCYLLA_PARTITIONER = ''SCYLLA_PARTITIONER''"

definition SCYLLA_SHARDING_ALGORITHM :: string where
  "SCYLLA_SHARDING_ALGORITHM = ''SCYLLA_SHARDING_ALGORITHM''"

definition SCYLLA_SHARDING_IGNORE_MSB :: string where
  "SCYLLA_SHARDING_IGNORE_MSB = ''SCYLLA_SHARDING_IGNORE_MSB''"

definition SCYLLA_SHARD_AWARE_PORT :: string where
  "SCYLLA_SHARD_AWARE_PORT = ''SCYLLA_SHARD_AWARE_PORT''"

definition SCYLLA_SHARD_AWARE_PORT_SSL :: string where
  "SCYLLA_SHARD_AWARE_PORT_SSL = ''SCYLLA_SHARD_AWARE_PORT_SSL''"

definition parse_string :: "StringMultimap \<Rightarrow> string \<Rightarrow> string option" where
  "parse_string params key =
     (case params key of
        None \<Rightarrow> None
      | Some vs \<Rightarrow> if length vs \<noteq> 1 then None else Some (vs ! 0))"

definition parse_int :: "StringMultimap \<Rightarrow> string \<Rightarrow> int32_t option" where
  "parse_int params key =
     (case parse_string params key of
        None \<Rightarrow> None
      | Some val \<Rightarrow> Some (atoi val))"

definition parse_sharding_info :: "StringMultimap \<Rightarrow> ConnectionShardingInfo option" where
  "parse_sharding_info params =
     (let shard = parse_int params SCYLLA_SHARD_PARAM_KEY;
          count = parse_int params SCYLLA_NR_SHARDS_PARAM_KEY;
          part = parse_string params SCYLLA_PARTITIONER;
          algo = parse_string params SCYLLA_SHARDING_ALGORITHM;
          ignore_MSB = parse_int params SCYLLA_SHARDING_IGNORE_MSB;
          port = parse_int params SCYLLA_SHARD_AWARE_PORT;
          port_ssl = parse_int params SCYLLA_SHARD_AWARE_PORT_SSL
      in if shard = None \<or> count = None \<or> part = None \<or> algo = None \<or> ignore_MSB = None
            \<or> the part \<noteq> ''org.apache.cassandra.dht.Murmur3Partitioner''
            \<or> the algo \<noteq> ''biased-token-round-robin''
         then None
         else Some \<lparr>csi_shard_id = the shard,
                    csi_sharding_info =
                      \<lparr>shards_count = scast (the count),
                       partitioner = the part,
                       sharding_algorithm = the algo,
                       sharding_ignore_MSB = the ignore_MSB,
                       shard_aware_port = port,
                       shard_aware_port_ssl = port_ssl\<rparr>\<rparr>)"

text \<open>The conditions of the specification's parse contract, in its words.\<close>

definition singleton_value :: "StringMultimap \<Rightarrow> string \<Rightarrow> bool" where
  "singleton_value params key = (case params key of None \<Rightarrow> False | Some vs \<Rightarrow> length vs = 1)"

definition descriptor_expected :: "StringMultimap \<Rightarrow> bool" where
  "descriptor_expected params =
     (singleton_value params ''SCYLLA_SHARD''
      \<and> singleton_value params ''SCYLLA_NR_SHARDS''
      \<and> singleton_value params ''SCYLLA_PARTITIONER''
      \<and> singleton_value params ''SCYLLA_SHARDING_ALGORITHM''
      \<and> singleton_value params ''SCYLLA_SHARDING_IGNORE_MSB''
      \<and> params ''SCYLLA_PARTITIONER'' = Some [''org.apache.cassandra.dht.Murmur3Partitioner'']
      \<and> params ''SCYLLA_SHARDING_ALGORITHM'' = Some [''biased-token-round-robin''])"

text \<open>The fields of a descriptor that the required keys determine.\<close>

definition required_fields ::
  "ConnectionShardingInfo \<Rightarrow> int32_t \<times> size_t \<times> string \<times> string \<times> int32_t" where
  "required_fields d =
     (csi_shard_id d, shards_count (csi_sharding_info d), partitioner (csi_sharding_info d),
      sharding_algorithm (csi_sharding_info d), sharding_ignore_MSB (csi_sharding_info d))"

text \<open>Supported options whose shard count is not a number and whose ignore-MSB is negative.\<close>

definition example_options :: StringMultimap where
  "example_options =
     [''SCYLLA_SHARD'' \<mapsto> [''0''], ''SCYLLA_NR_SHARDS'' \<mapsto> [''abc''],
      ''SCYLLA_PARTITIONER'' \<mapsto> [''org.apache.cassandra.dht.Murmur3Partitioner''],
      ''SCYLLA_SHARDING_ALGORITHM'' \<mapsto> [''biased-token-round-robin''],
      ''SCYLLA_SHARDING_IGNORE_MSB'' \<mapsto> [''-1'']]"

section \<open>The connection pool (connection\_pool.cpp)\<close>

text \<open>
  Modelled from the spec: the class \<open>PooledConnection\<close> is defined outside
  \<open>connection_pool.cpp\<close>. The pool reads of a pooled connection its identity (the pointer),
  \<open>shard_id()\<close>, \<open>inflight_request_count()\<close> and \<open>is_closing()\<close>.
\<close>

record Connection =
  conn_id :: nat
  conn_shard_id :: int32_t
  inflight_request_count :: int
  is_closing :: bool

text \<open>
  Modelled from the spec: \<open>PooledConnection::close\<close> begins the shutdown and makes
  \<open>is_closing\<close> true; the connection runs the pool's \<open>close_connection\<close> hook later, once.
\<close>

definition connection_close :: "Connection \<Rightarrow> Connection" where
  "connection_close c = c\<lparr>is_closing := True\<rparr>"

text \<open>
  Modelled from the spec: a \<open>ReconnectionSchedule\<close> is a stateful generator of delays with
  the one operation \<open>next_delay_ms\<close>, its nth call giving the nth delay of the policy. The
  model keeps the identity of the schedule and the number of calls made on it.
\<close>

record ReconnectionSchedule =
  schedule_id :: nat
  delays_taken :: nat

text \<open>
  Modelled from the spec: the class \<open>DelayedConnector\<close> is defined outside
  \<open>connection_pool.cpp\<close>. The pool keeps of a connector its identity (the pointer), the
  desired shard it was given, the delay it was started with (as the number of the
  \<open>next_delay_ms\<close> call that gave it) and whether \<open>cancel\<close> was called on it.
\<close>

record DelayedConnector =
  connector_id :: nat
  desired_shard_num :: "int32_t option"
  delay_call :: nat
  cancel_called :: bool

text \<open>
  Modelled from the spec: \<open>DelayedConnector::cancel\<close> marks the connector; its callback,
  \<open>on_reconnect\<close>, fires later with the outcome "canceled".
\<close>

definition connector_cancel :: "DelayedConnector \<Rightarrow> DelayedConnector" where
  "connector_cancel k = k\<lparr>cancel_called := True\<rparr>"

text \<open>
  Modelled from the spec: a connector reports one of four outcomes, which \<open>on_reconnect\<close>
  reads through \<open>is_ok\<close>, \<open>is_canceled\<close> and \<open>is_critical_error\<close>: ok (with the
  connection), canceled, critical error, and any other error, which is transient.
\<close>

datatype ConnectorOutcome =
  CONNECTOR_OK Connection
  | CONNECTOR_CANCELED
  | CONNECTOR_CRITICAL_ERROR
  | CONNECTOR_TRANSIENT_ERROR

datatype CloseState =
  CLOSE_STATE_OPEN
  | CLOSE_STATE_CLOSING
  | CLOSE_STATE_WAITING_FOR_CONNECTIONS
  | CLOSE_STATE_CLOSED

datatype NotifyState =
  NOTIFY_STATE_NEW
  | NOTIFY_STATE_UP
  | NOTIFY_STATE_DOWN
  | NOTIFY_STATE_CRITICAL

datatype ListenerEvent = on_pool_up | on_pool_down | on_pool_critical_error | on_close

text \<open>
  What C++ leaves undefined, aborts on, or answers with an exception is a value of the
  model: a division by zero, an index beyond the end of \<open>connections_by_shard_\<close>, a shift
  count out of range, a failed \<open>assert\<close>, and the \<open>std::length_error\<close> of a vector asked
  to hold more elements than it can.
\<close>

datatype Fault =
  DivisionByZero | IndexOutOfBounds | ShiftOutOfRange | AssertionFailed | LengthError

text \<open>
  The state of one pool. \<open>listener_events\<close> is the sequence of calls made on the listener;
  \<open>closed_unpooled\<close> lists the connections the pool closed without ever holding them;
  \<open>reconnection_schedules\<close> maps a pending connector (by identity) to the schedule it owns,
  a schedule being its identity and the number of \<open>next_delay_ms\<close> calls made on it;
  \<open>next_connector\<close> and \<open>next_schedule\<close> give fresh identities to new objects. Metrics,
  the flush set, the keyspace and logging are left out: no operation below reads them.
\<close>

record ConnectionPool =
  host_sharding_info :: "ShardingInfo option"
  num_connections_per_host :: size_t
  connections_by_shard :: "Connection list list"
  num_connections_per_shard :: size_t
  pending_connections :: "DelayedConnector list"
  reconnection_schedules :: "nat \<rightharpoonup> ReconnectionSchedule"
  close_state :: CloseState
  notify_state :: NotifyState
  listener_events :: "ListenerEvent list"
  closed_unpooled :: "nat list"
  ref_count :: nat
  next_connector :: nat
  next_schedule :: nat

text \<open>
  Modelled from the spec: the macro \<open>CASS_INT64_MIN\<close> is declared in \<open>cassandra.h\<close>; it is
  the least \<open>int64_t\<close>, the sentinel for "no token".
\<close>

definition CASS_INT64_MIN :: int64_t where
  "CASS_INT64_MIN = 0x8000000000000000"

text \<open>An \<open>int32_t\<close> shard id used as a \<open>size_t\<close> index: the conversion extends the sign.\<close>

definition shard_index :: "int32_t \<Rightarrow> nat" where
  "shard_index s = unat (scast s :: size_t)"

subsection \<open>Dispatch\<close>

definition least_busy_comp :: "Connection \<Rightarrow> Connection \<Rightarrow> bool" where
  "least_busy_comp a b =
     (if is_closing a then False
      else if is_closing b then True
      else inflight_request_count a < inflight_request_count b)"

text \<open>\<open>std::min(a, b, comp)\<close> returns \<open>b\<close> when \<open>comp(b, a)\<close> and \<open>a\<close> otherwise.\<close>

definition std_min :: "Connection \<Rightarrow> Connection \<Rightarrow> Connection" where
  "std_min a b = (if least_busy_comp b a then b else a)"

text \<open>
  \<open>std::min_element\<close>: the end iterator (\<open>None\<close>) on an empty range, otherwise the first
  smallest element, found by one pass that replaces the candidate when \<open>comp(*it, *smallest)\<close>.
\<close>

fun min_element_from :: "Connection \<Rightarrow> Connection list \<Rightarrow> Connection" where
  "min_element_from smallest [] = smallest"
| "min_element_from smallest (x # xs) =
     min_element_from (if least_busy_comp x smallest then x else smallest) xs"

definition min_element :: "Connection list \<Rightarrow> Connection option" where
  "min_element xs = (case xs of [] \<Rightarrow> None | x # rest \<Rightarrow> Some (min_element_from x rest))"

text \<open>The two nested loops of the first branch of \<open>find_least_busy\<close>.\<close>

definition least_busy_step :: "Connection option \<Rightarrow> Connection \<Rightarrow> Connection option" where
  "least_busy_step least_busy conn =
     (if \<not> is_closing conn
      then (case least_busy of None \<Rightarrow> Some conn | Some l \<Rightarrow> Some (std_min l conn))
      else least_busy)"

definition least_busy_entire_pool :: "Connection list list \<Rightarrow> Connection option" where
  "least_busy_entire_pool slots =
     foldl (\<lambda>least_busy shard_pool. foldl least_busy_step least_busy shard_pool) None slots"

function find_least_busy :: "ConnectionPool \<Rightarrow> int64_t \<Rightarrow> Fault + Connection option" where
  "find_least_busy p token =
     (if token = CASS_INT64_MIN \<or> host_sharding_info p = None
      then Inr (least_busy_entire_pool (connections_by_shard p))
      else
        case shard_id (the (host_sharding_info p)) token of
          None \<Rightarrow> Inl ShiftOutOfRange
        | Some s \<Rightarrow>
            if length (connections_by_shard p) \<le> shard_index s then Inl IndexOutOfBounds
            else
              case min_element (connections_by_shard p ! shard_index s) of
                None \<Rightarrow> find_least_busy p CASS_INT64_MIN
              | Some c \<Rightarrow> if is_closing c then find_least_busy p CASS_INT64_MIN else Inr (Some c))"
  by pat_completeness auto
termination
  by (relation "measure (\<lambda>(p, token). if token = CASS_INT64_MIN then 0 else 1)") auto

declare find_least_busy.simps [simp del]

text \<open>
  The selection in the words of the specification: among the non-closing connections, in
  iteration order, the first one whose inflight count no other one undercuts.
\<close>

definition no_lower :: "Connection list \<Rightarrow> Connection \<Rightarrow> bool" where
  "no_lower cs c = (\<forall>d \<in> set cs. inflight_request_count c \<le> inflight_request_count d)"

definition least_busy_spec :: "Connection list \<Rightarrow> Connection option" where
  "least_busy_spec cs =
     (let live = filter (\<lambda>c. \<not> is_closing c) cs in find (no_lower live) live)"

subsection \<open>Notification, reconnection and closing\<close>

definition has_connections :: "ConnectionPool \<Rightarrow> bool" where
  "has_connections p = list_ex (\<lambda>v. v \<noteq> []) (connections_by_shard p)"

definition emit :: "ListenerEvent \<Rightarrow> ConnectionPool \<Rightarrow> ConnectionPool" where
  "emit e p = p\<lparr>listener_events := listener_events p @ [e]\<rparr>"

definition notify_up_or_down :: "ConnectionPool \<Rightarrow> ConnectionPool" where
  "notify_up_or_down p =
     (if (notify_state p = NOTIFY_STATE_NEW \<or> notify_state p = NOTIFY_STATE_UP)
         \<and> \<not> has_connections p
      then emit on_pool_down (p\<lparr>notify_state := NOTIFY_STATE_DOWN\<rparr>)
      else if (notify_state p = NOTIFY_STATE_NEW \<or> notify_state p = NOTIFY_STATE_DOWN)
         \<and> has_connections p
      then emit on_pool_up (p\<lparr>notify_state := NOTIFY_STATE_UP\<rparr>)
      else p)"

definition notify_critical_error :: "ConnectionPool \<Rightarrow> ConnectionPool" where
  "notify_critical_error p =
     (if notify_state p \<noteq> NOTIFY_STATE_CRITICAL
      then emit on_pool_critical_error (p\<lparr>notify_state := NOTIFY_STATE_CRITICAL\<rparr>)
      else p)"

definition has_shard_aware_port :: "ConnectionPool \<Rightarrow> bool" where
  "has_shard_aware_port p =
     (case host_sharding_info p of
        None \<Rightarrow> False
      | Some si \<Rightarrow> shard_aware_port si \<noteq> None \<or> shard_aware_port_ssl si \<noteq> None)"

text \<open>
  \<open>schedule_reconnect\<close>: a new connector; a new schedule unless one is handed over; the
  schedule is stored under the connector and \<open>next_delay_ms\<close> is called on it once; the
  desired shard is kept only when the host advertises a shard-aware port. Called without
  arguments, it has no schedule and no desired shard (the defaults of its declaration).
\<close>

definition schedule_reconnect ::
  "ReconnectionSchedule option \<Rightarrow> int32_t option \<Rightarrow> ConnectionPool \<Rightarrow> ConnectionPool" where
  "schedule_reconnect schedule desired p =
     (let sched = (case schedule of
                     None \<Rightarrow> \<lparr>schedule_id = next_schedule p, delays_taken = 0\<rparr>
                   | Some s \<Rightarrow> s);
          sched' = sched\<lparr>delays_taken := delays_taken sched + 1\<rparr>;
          connector = \<lparr>connector_id = next_connector p,
                       desired_shard_num =
                         (case desired of
                            None \<Rightarrow> None
                          | Some d \<Rightarrow> if has_shard_aware_port p then Some d else None),
                       delay_call = delays_taken sched',
                       cancel_called = False\<rparr>
      in p\<lparr>reconnection_schedules := (reconnection_schedules p)(next_connector p \<mapsto> sched'),
           pending_connections := pending_connections p @ [connector],
           next_connector := next_connector p + 1,
           next_schedule := (case schedule of
                               None \<Rightarrow> next_schedule p + 1
                             | Some s \<Rightarrow> next_schedule p)\<rparr>)"

definition maybe_closed :: "ConnectionPool \<Rightarrow> ConnectionPool" where
  "maybe_closed p =
     (if close_state p = CLOSE_STATE_WAITING_FOR_CONNECTIONS \<and> \<not> has_connections p
         \<and> pending_connections p = []
      then
        let p1 = p\<lparr>close_state := CLOSE_STATE_CLOSED\<rparr>;
            p2 = (if notify_state p1 = NOTIFY_STATE_UP then emit on_pool_down p1 else p1);
            p3 = emit on_close p2
        in p3\<lparr>ref_count := ref_count p3 - 1\<rparr>
      else p)"

definition internal_close :: "ConnectionPool \<Rightarrow> ConnectionPool" where
  "internal_close p =
     (if close_state p = CLOSE_STATE_OPEN
      then
        let p1 = p\<lparr>close_state := CLOSE_STATE_CLOSING\<rparr>;
            p2 = p1\<lparr>connections_by_shard := map (map connection_close) (connections_by_shard p1)\<rparr>;
            p3 = p2\<lparr>pending_connections := map connector_cancel (pending_connections p2)\<rparr>;
            p4 = p3\<lparr>close_state := CLOSE_STATE_WAITING_FOR_CONNECTIONS\<rparr>
        in maybe_closed p4
      else p)"

definition add_connection :: "Connection \<Rightarrow> ConnectionPool \<Rightarrow> Fault + ConnectionPool" where
  "add_connection conn p =
     (let i = shard_index (conn_shard_id conn)
      in if length (connections_by_shard p) \<le> i then Inl IndexOutOfBounds
         else Inr (p\<lparr>connections_by_shard :=
                       (connections_by_shard p)[i := connections_by_shard p ! i @ [conn]]\<rparr>))"

definition close_connection :: "Connection \<Rightarrow> ConnectionPool \<Rightarrow> Fault + ConnectionPool" where
  "close_connection conn p =
     (let i = shard_index (conn_shard_id conn)
      in if length (connections_by_shard p) \<le> i then Inl IndexOutOfBounds
         else
           let p1 = p\<lparr>connections_by_shard :=
                        (connections_by_shard p)
                          [i := filter (\<lambda>c. conn_id c \<noteq> conn_id conn) (connections_by_shard p ! i)]\<rparr>
           in if close_state p1 \<noteq> CLOSE_STATE_OPEN then Inr (maybe_closed p1)
              else Inr (schedule_reconnect None (Some (conn_shard_id conn)) (notify_up_or_down p1)))"

definition on_reconnect ::
  "DelayedConnector \<Rightarrow> ConnectorOutcome \<Rightarrow> ConnectionPool \<Rightarrow> Fault + ConnectionPool" where
  "on_reconnect connector outcome p =
     (let p1 = p\<lparr>pending_connections :=
                  filter (\<lambda>k. connector_id k \<noteq> connector_id connector) (pending_connections p)\<rparr>
      in case reconnection_schedules p1 (connector_id connector) of
           None \<Rightarrow> Inl AssertionFailed
         | Some schedule \<Rightarrow>
             let p2 = p1\<lparr>reconnection_schedules :=
                          (reconnection_schedules p1)(connector_id connector := None)\<rparr>
             in if close_state p2 \<noteq> CLOSE_STATE_OPEN then Inr (maybe_closed p2)
                else
                  case outcome of
                    CONNECTOR_OK conn \<Rightarrow>
                      if shard_index (conn_shard_id conn) < length (connections_by_shard p2)
                         \<and> length (connections_by_shard p2 ! shard_index (conn_shard_id conn))
                             < unat (num_connections_per_shard p2)
                      then (case add_connection conn p2 of
                              Inl f \<Rightarrow> Inl f
                            | Inr p3 \<Rightarrow> Inr (notify_up_or_down p3))
                      else Inr (schedule_reconnect (Some schedule) (desired_shard_num connector)
                                  (p2\<lparr>closed_unpooled := closed_unpooled p2 @ [conn_id conn]\<rparr>))
                  | CONNECTOR_CANCELED \<Rightarrow> Inr p2
                  | CONNECTOR_CRITICAL_ERROR \<Rightarrow> Inr (internal_close (notify_critical_error p2))
                  | CONNECTOR_TRANSIENT_ERROR \<Rightarrow>
                      Inr (schedule_reconnect (Some schedule) (desired_shard_num connector) p2))"

subsection \<open>Construction\<close>

text \<open>The loop over the supplied connections.\<close>

fun add_initial :: "Connection list \<Rightarrow> ConnectionPool \<Rightarrow> Fault + ConnectionPool" where
  "add_initial [] p = Inr p"
| "add_initial (connection # rest) p =
     (if \<not> is_closing connection
      then
        if length (connections_by_shard p) \<le> shard_index (conn_shard_id connection)
        then Inl IndexOutOfBounds
        else if length (connections_by_shard p ! shard_index (conn_shard_id connection))
                  < unat (num_connections_per_shard p)
        then (case add_connection connection p of
                Inl f \<Rightarrow> Inl f
              | Inr p1 \<Rightarrow> add_initial rest p1)
        else add_initial rest (p\<lparr>closed_unpooled := closed_unpooled p @ [conn_id connection]\<rparr>)
      else add_initial rest p)"

text \<open>
  The loop that schedules the missing connections. \<open>needed\<close> is an \<open>int\<close> initialised from
  a \<open>size_t\<close> difference; the inner loop runs \<open>needed\<close> times when that is positive.
\<close>

definition needed :: "ConnectionPool \<Rightarrow> nat \<Rightarrow> int" where
  "needed p shard_num =
     sint (ucast (num_connections_per_shard p
                  - of_nat (length (connections_by_shard p ! shard_num))) :: int32_t)"

fun schedule_times :: "nat \<Rightarrow> nat \<Rightarrow> ConnectionPool \<Rightarrow> ConnectionPool" where
  "schedule_times 0 shard_num p = p"
| "schedule_times (Suc i) shard_num p =
     schedule_times i shard_num
       (if has_shard_aware_port p
        then schedule_reconnect None (Some (of_nat shard_num)) p
        else schedule_reconnect None None p)"

fun schedule_missing :: "nat list \<Rightarrow> ConnectionPool \<Rightarrow> ConnectionPool" where
  "schedule_missing [] p = p"
| "schedule_missing (shard_num # rest) p =
     schedule_missing rest (schedule_times (nat (needed p shard_num)) shard_num p)"

text \<open>
  \<open>std::vector::resize\<close> throws \<open>std::length_error\<close> when asked for more than \<open>max_size()\<close>
  elements. With libstdc++ on an LP64 platform that bound is \<open>PTRDIFF_MAX\<close> divided by the
  size of an element; an element of \<open>connections_by_shard_\<close> is a vector, three pointers.
  Running out of memory below that bound is not modelled.
\<close>

definition vector_max_size :: nat where
  "vector_max_size = (2 ^ 63 - 1) div 24"

text \<open>
  The constructor. With a descriptor, \<open>connections_by_shard_.resize(hosts_shard_cnt)\<close> comes
  first and fails for a count above \<open>vector_max_size\<close>; the division by the count comes
  next and fails for the count 0.
\<close>

definition ConnectionPool_new ::
  "Connection list \<Rightarrow> ShardingInfo option \<Rightarrow> size_t \<Rightarrow> Fault + ConnectionPool" where
  "ConnectionPool_new connections si per_host =
     (if (case si of None \<Rightarrow> False | Some i \<Rightarrow> vector_max_size < unat (shards_count i))
      then Inl LengthError
      else if (case si of None \<Rightarrow> False | Some i \<Rightarrow> shards_count i = 0)
      then Inl DivisionByZero
      else
        let p0 = \<lparr>host_sharding_info = si,
                  num_connections_per_host = per_host,
                  connections_by_shard =
                    (case si of
                       None \<Rightarrow> replicate 1 []
                     | Some i \<Rightarrow> replicate (unat (shards_count i)) []),
                  num_connections_per_shard =
                    (case si of
                       None \<Rightarrow> per_host
                     | Some i \<Rightarrow> per_host div shards_count i
                         + (if per_host mod shards_count i \<noteq> 0 then 1 else 0)),
                  pending_connections = [],
                  reconnection_schedules = Map.empty,
                  close_state = CLOSE_STATE_OPEN,
                  notify_state = NOTIFY_STATE_NEW,
                  listener_events = [],
                  closed_unpooled = [],
                  ref_count = 1,
                  next_connector = 0,
                  next_schedule = 0\<rparr>
        in case add_initial connections p0 of
             Inl f \<Rightarrow> Inl f
           | Inr p1 \<Rightarrow>
               let p2 = notify_up_or_down p1
               in Inr (schedule_missing [0 ..< length (connections_by_shard p2)] p2))"

subsection \<open>Runs of the pool\<close>

text \<open>
  The calls that reach a pool after its construction: \<open>close\<close> from the session, the
  \<open>close_connection\<close> hook of a pooled connection, and the callback of a connector.
\<close>

datatype PoolOp =
  Close
  | CloseConnection Connection
  | OnReconnect DelayedConnector ConnectorOutcome

fun step :: "PoolOp \<Rightarrow> ConnectionPool \<Rightarrow> Fault + ConnectionPool" where
  "step Close p = Inr (internal_close p)"
| "step (CloseConnection c) p = close_connection c p"
| "step (OnReconnect k outcome) p = on_reconnect k outcome p"

fun run :: "PoolOp list \<Rightarrow> ConnectionPool \<Rightarrow> Fault + ConnectionPool" where
  "run [] p = Inr p"
| "run (x # xs) p = (case step x p of Inl f \<Rightarrow> Inl f | Inr p1 \<Rightarrow> run xs p1)"

subsection \<open>Predicates of the theorems\<close>

text \<open>
  The number of slots the specification gives a pool, \<open>max(1, shards_count)\<close>, and the
  precondition that every supplied non-closing connection reports a shard below it, the
  shard id being read as the \<open>size_t\<close> index the constructor makes of it.
\<close>

definition slot_count :: "ShardingInfo option \<Rightarrow> nat" where
  "slot_count si = max 1 (case si of None \<Rightarrow> 0 | Some i \<Rightarrow> unat (shards_count i))"

definition shards_in_range :: "Connection list \<Rightarrow> ShardingInfo option \<Rightarrow> bool" where
  "shards_in_range connections si =
     (\<forall>c \<in> set connections. \<not> is_closing c \<longrightarrow> shard_index (conn_shard_id c) < slot_count si)"

text \<open>
  What a listener has seen agrees with the two state dimensions: one critical error exactly
  when the notify state is \<open>CRITICAL\<close>, one \<open>on_close\<close> exactly when the pool is \<open>CLOSED\<close>,
  and the self-reference held until then.
\<close>

definition pool_inv :: "ConnectionPool \<Rightarrow> bool" where
  "pool_inv p =
     (count_list (listener_events p) on_pool_critical_error
        = (if notify_state p = NOTIFY_STATE_CRITICAL then 1 else 0)
      \<and> count_list (listener_events p) on_close
        = (if close_state p = CLOSE_STATE_CLOSED then 1 else 0)
      \<and> ref_count p = (if close_state p = CLOSE_STATE_CLOSED then 0 else 1))"

text \<open>
  \<open>quiet_after p p1\<close>: the pool \<open>p1\<close> is in the notify state \<open>CRITICAL\<close> and the listener has
  seen, since \<open>p\<close>, nothing but \<open>on_close\<close>.
\<close>

definition quiet_after :: "ConnectionPool \<Rightarrow> ConnectionPool \<Rightarrow> bool" where
  "quiet_after p p1 =
     (notify_state p1 = NOTIFY_STATE_CRITICAL
      \<and> take (length (listener_events p)) (listener_events p1) = listener_events p
      \<and> list_all (\<lambda>e. e = on_close) (drop (length (listener_events p)) (listener_events p1)))"

text \<open>
  The pending attempts are distinct objects and each owns a schedule; a run starting from the
  result of a construction; what a listener and the two state dimensions show of a result.
\<close>

definition attempts_ok :: "ConnectionPool \<Rightarrow> bool" where
  "attempts_ok p =
     (distinct (map connector_id (pending_connections p))
      \<and> (\<forall>k \<in> set (pending_connections p).
            connector_id k < next_connector p
            \<and> reconnection_schedules p (connector_id k) \<noteq> None))"

definition run_from :: "PoolOp list \<Rightarrow> Fault + ConnectionPool \<Rightarrow> Fault + ConnectionPool" where
  "run_from xs r = (case r of Inl f \<Rightarrow> Inl f | Inr p \<Rightarrow> run xs p)"

definition observed ::
  "Fault + ConnectionPool \<Rightarrow> Fault + ListenerEvent list \<times> NotifyState \<times> CloseState" where
  "observed r =
     (case r of Inl f \<Rightarrow> Inl f | Inr p \<Rightarrow> Inr (listener_events p, notify_state p, close_state p))"

text \<open>What no operation of a pool changes: the host's descriptor and the number of slots.\<close>

definition shape :: "ConnectionPool \<Rightarrow> ShardingInfo option \<times> nat" where
  "shape p = (host_sharding_info p, length (connections_by_shard p))"

subsection \<open>Example states\<close>

definition example_sharding :: ShardingInfo where
  "example_sharding =
     \<lparr>shards_count = 4, partitioner = ''org.apache.cassandra.dht.Murmur3Partitioner'',
      sharding_algorithm = ''biased-token-round-robin'', sharding_ignore_MSB = 0,
      shard_aware_port = None, shard_aware_port_ssl = None\<rparr>"

definition example_conn :: "nat \<Rightarrow> int32_t \<Rightarrow> int \<Rightarrow> Connection" where
  "example_conn i s n =
     \<lparr>conn_id = i, conn_shard_id = s, inflight_request_count = n, is_closing = False\<rparr>"

definition example_pool :: "ShardingInfo option \<Rightarrow> Connection list list \<Rightarrow> ConnectionPool" where
  "example_pool si slots =
     \<lparr>host_sharding_info = si, num_connections_per_host = 4, connections_by_shard = slots,
      num_connections_per_shard = 1, pending_connections = [],
      reconnection_schedules = Map.empty, close_state = CLOSE_STATE_OPEN,
      notify_state = NOTIFY_STATE_UP, listener_events = [on_pool_up], closed_unpooled = [],
      ref_count = 1, next_connector = 0, next_schedule = 0\<rparr>"

definition example_connector :: DelayedConnector where
  "example_connector =
     \<lparr>connector_id = 0, desired_shard_num = None, delay_call = 1, cancel_called = False\<rparr>"

definition example_attempt :: "ShardingInfo option \<Rightarrow> Connection list list \<Rightarrow> ConnectionPool" where
  "example_attempt si slots =
     (example_pool si slots)
       \<lparr>pending_connections := [example_connector],
        reconnection_schedules := [0 \<mapsto> \<lparr>schedule_id = 0, delays_taken = 1\<rparr>],
        next_connector := 1, next_schedule := 1\<rparr>"

definition second_connector :: DelayedConnector where
  "second_connector =
     \<lparr>connector_id = 1, desired_shard_num = None, delay_call = 1, cancel_called = False\<rparr>"

definition cold_pool :: ConnectionPool where
  "cold_pool =
     \<lparr>host_sharding_info = None, num_connections_per_host = 2, connections_by_shard = [[]],
      num_connections_per_shard = 2,
      pending_connections = [example_connector, second_connector],
      reconnection_schedules =
        [0 \<mapsto> \<lparr>schedule_id = 0, delays_taken = 1\<rparr>, 1 \<mapsto> \<lparr>schedule_id = 1, delays_taken = 1\<rparr>],
      close_state = CLOSE_STATE_OPEN, notify_state = NOTIFY_STATE_DOWN,
      listener_events = [on_pool_down], closed_unpooled = [], ref_count = 1,
      next_connector = 2, next_schedule = 2\<rparr>"

section \<open>Theorems about the sharding descriptor\<close>

lemma top_bit_clear: "uint (w :: 64 word) < 2 ^ 63 \<Longrightarrow> \<not> bit w 63"
proof -
  assume a: "uint w < 2 ^ 63"
  have "bit (uint w) 63 = bit w 63" by (simp add: bit_unsigned_iff)
  moreover have "\<not> bit (uint w) 63" using a by (simp add: bit_iff_odd)
  ultimately show ?thesis by simp
qed

lemma sdrop_small: "uint (w :: 64 word) < 2 ^ 63 \<Longrightarrow> signed_drop_bit 32 w = drop_bit 32 w"
  using top_bit_clear [of w]
  by - (rule bit_word_eqI, auto simp add: bit_simps dest: bit_imp_le_length)

lemma tokLo_eq: "(w :: 64 word) AND 0xffffffff = take_bit 32 w"
proof -
  have "(0xffffffff :: 64 word) = mask 32" by (simp add: mask_eq_exp_minus_1)
  then show ?thesis by (simp add: take_bit_eq_mask)
qed

lemma tokHi_eq: "signed_drop_bit 32 (w :: 64 word) AND 0xffffffff = drop_bit 32 w"
proof -
  have m: "(0xffffffff :: 64 word) = mask 32" by (simp add: mask_eq_exp_minus_1)
  show ?thesis unfolding m
    by (rule bit_word_eqI) (auto simp add: bit_simps dest: bit_imp_le_length)
qed

lemma tokHi_take: "take_bit 32 (signed_drop_bit 32 (w :: 64 word)) = drop_bit 32 w"
  using tokHi_eq [of w] by (simp only: tokLo_eq)

lemma cast_sdrop: "(ucast (signed_drop_bit 32 (w :: 64 word)) :: 32 word) = ucast (drop_bit 32 w)"
  by (auto simp add: bit_eq_iff bit_simps)

lemma uint_lo: "uint (take_bit 32 (w :: 64 word)) = uint w mod 2 ^ 32"
  by (simp add: take_bit_eq_mod uint_mod_distrib)

lemma uint_hi: "uint (drop_bit 32 (w :: 64 word)) = uint w div 2 ^ 32"
  by (simp add: drop_bit_eq_div uint_div_distrib)

lemma uint_shl: "uint (push_bit m (w :: 64 word)) = (uint w * 2 ^ m) mod 2 ^ 64"
  by (subst unsigned_push_bit_eq) (simp add: take_bit_eq_mod push_bit_eq_mult)

lemma uint_bias: "uint ((t :: 64 word) + 0x8000000000000000) = (sint t + 2 ^ 63) mod 2 ^ 64"
proof -
  have "uint (t + 0x8000000000000000) = (uint t + 2 ^ 63) mod 2 ^ 64"
    by (simp add: uint_word_ariths)
  moreover have "uint t mod 2 ^ 64 = sint t mod 2 ^ 64"
  proof -
    have "take_bit 64 (signed_take_bit 63 (uint t)) = take_bit 64 (uint t)"
      by (rule take_bit_signed_take_bit) simp
    then show ?thesis
      by (simp only: take_bit_eq_mod sint_uint) simp
  qed
  ultimately show ?thesis
    by (metis mod_add_left_eq)
qed

lemma uint_cast_hi: "uint (ucast (drop_bit 32 (w :: 64 word)) :: 32 word) = uint w div 2 ^ 32"
proof -
  have "uint (drop_bit 32 w) < 2 ^ 32"
    using unsigned_less [of w, where 'a = int] by (simp add: uint_hi)
  moreover have "0 \<le> uint (drop_bit 32 w)" by simp
  ultimately have "uint (drop_bit 32 w) mod 2 ^ 32 = uint (drop_bit 32 w)"
    by (rule_tac mod_pos_pos_trivial)
  then show ?thesis
    by (simp only: unsigned_ucast_eq take_bit_eq_mod uint_hi) simp
qed

lemma sint_small: "uint (r :: 32 word) < 2 ^ 31 \<Longrightarrow> sint r = uint r"
  by (simp add: sint_uint signed_take_bit_int_eq_self_iff) (use uint_ge_0 [of r] in linarith)


lemma div_bound: "0 \<le> (x::int) \<Longrightarrow> x < 4294967296 * k \<Longrightarrow> 0 \<le> x div 4294967296 \<and> x div 4294967296 < k"
  by (simp add: pos_imp_zdiv_nonneg_iff div_less_iff_less_mult mult.commute)

lemma halves_bound:
  assumes "0 \<le> a" "a < 2 ^ 64" "1 \<le> n"
  shows "0 \<le> halves a n \<and> halves a n < n"
proof -
  define lo hi where "lo = a mod 4294967296" and "hi = a div 4294967296"
  have lo: "0 \<le> lo" "lo \<le> 4294967295" by (simp_all add: lo_def)
  have hi: "0 \<le> hi" "hi \<le> 4294967295" 
    using assms div_bound [of a 4294967296] by (simp_all add: hi_def)
  define p1 p2 where "p1 = lo * n" and "p2 = hi * n"
  have p1: "0 \<le> p1" "p1 \<le> 4294967295 * n"
    unfolding p1_def using lo assms by (simp_all add: mult_right_mono)
  have p2: "0 \<le> p2" "p2 \<le> 4294967295 * n"
    unfolding p2_def using hi assms by (simp_all add: mult_right_mono)
  have q: "0 \<le> p1 div 4294967296" "p1 div 4294967296 < n"
    using div_bound [of p1 n] p1 assms(3) by simp_all
  have h: "halves a n = (p1 div 4294967296 + p2) div 4294967296"
    by (simp add: halves_def p1_def p2_def lo_def hi_def)
  show ?thesis unfolding h
    using div_bound [of "p1 div 4294967296 + p2" n] q p2 by simp
qed


lemma reference_halves:
  "shard_id_reference t n m = halves (((t + 2 ^ 63) mod 2 ^ 64 * 2 ^ m) mod 2 ^ 64) n"
  by (simp add: shard_id_reference_def halves_def Let_def)

lemma shard_id_halves:
  fixes si :: ShardingInfo and t :: int64_t
  defines "n \<equiv> shards_count si" and "m \<equiv> nat (sint (sharding_ignore_MSB si))"
  defines "a \<equiv> uint (push_bit m (t + 0x8000000000000000))"
  assumes n: "1 \<le> uint n" "uint n \<le> 2 ^ 31"
    and m: "0 \<le> sint (sharding_ignore_MSB si)" "sint (sharding_ignore_MSB si) < 64"
  shows "\<exists>r. shard_id si t = Some r \<and> uint r = halves a (uint n)"
proof -
  define U where "U = push_bit m (t + 0x8000000000000000)"
  define lo hi where "lo = take_bit 32 U" and "hi = drop_bit 32 U"
  have a: "0 \<le> a" "a < 2 ^ 64"
    unfolding a_def using unsigned_less [of "push_bit m (t + 0x8000000000000000)", where 'a = int]
    by simp_all
  have ulo: "uint lo = a mod 4294967296" by (simp add: lo_def U_def a_def uint_lo)
  have uhi: "uint hi = a div 4294967296" by (simp add: hi_def U_def a_def uint_hi)
  have blo: "0 \<le> uint lo" "uint lo \<le> 4294967295" by (simp_all add: ulo)
  have bhi: "0 \<le> uint hi" "uint hi \<le> 4294967295"
    using a div_bound [of a 4294967296] by (simp_all add: uhi)
  have N: "0 \<le> uint n" "uint n \<le> 2147483648" using n by simp_all
  have p1: "uint lo * uint n \<le> 4294967295 * 2147483648"
    using blo N by (intro mult_mono) simp_all
  have p2: "uint hi * uint n \<le> 4294967295 * 2147483648"
    using bhi N by (intro mult_mono) simp_all
  have m1: "uint (lo * n) = uint lo * uint n"
    using p1 by (intro uint_mult_lem [THEN iffD1]) simp
  have m2: "uint (hi * n) = uint hi * uint n"
    using p2 by (intro uint_mult_lem [THEN iffD1]) simp
  have s1: "signed_drop_bit 32 (lo * n) = drop_bit 32 (lo * n)"
    using p1 by (intro sdrop_small) (simp add: m1)
  have q1: "uint (drop_bit 32 (lo * n)) = uint lo * uint n div 4294967296"
    by (simp add: uint_hi m1)
  have q1b: "uint lo * uint n div 4294967296 < 2147483648"
    using div_bound [of "uint lo * uint n" 2147483648] p1 blo N by simp
  have sm: "uint (drop_bit 32 (lo * n) + hi * n) = uint lo * uint n div 4294967296 + uint hi * uint n"
    using q1b p2 by (simp add: uint_add_lem [THEN iffD1] q1 m2)
  have res: "uint (ucast (drop_bit 32 (drop_bit 32 (lo * n) + hi * n)) :: 32 word)
      = (uint lo * uint n div 4294967296 + uint hi * uint n) div 4294967296"
    by (simp only: uint_cast_hi sm) simp
  have "shard_id si t = Some (ucast (drop_bit 32 (drop_bit 32 (lo * n) + hi * n)))"
    using m by (simp add: shard_id_def Let_def tokLo_eq tokHi_take cast_sdrop s1 [unfolded lo_def hi_def U_def m_def n_def]
        lo_def hi_def U_def m_def n_def)
  moreover have "(uint lo * uint n div 4294967296 + uint hi * uint n) div 4294967296 = halves a (uint n)"
    by (simp add: halves_def ulo uhi)
  ultimately show ?thesis using res by simp
qed

text \<open>
  Claim C1, as the code supports it. For every token, every shard count \<open>n\<close> with
  \<open>1 \<le> n \<le> 2^31\<close> and every ignore-MSB count \<open>m\<close> with \<open>0 \<le> m < 64\<close>, \<open>shard_id\<close> returns
  the value of the reference computation of the specification, and that value lies in
  \<open>[0, n)\<close>. Beyond \<open>2^31\<close> the arithmetic right shifts of the source and its \<open>int32_t\<close>
  result leave the reference; from 64 on the shift of the source is undefined.
\<close>

theorem shard_id_matches_reference:
  assumes "1 \<le> uint (shards_count si)" "uint (shards_count si) \<le> 2 ^ 31"
    and "0 \<le> sint (sharding_ignore_MSB si)" "sint (sharding_ignore_MSB si) < 64"
  shows "\<exists>r. shard_id si t = Some r
     \<and> sint r = shard_id_reference (sint t) (uint (shards_count si)) (nat (sint (sharding_ignore_MSB si)))
     \<and> 0 \<le> sint r \<and> sint r < uint (shards_count si)"
proof -
  let ?m = "nat (sint (sharding_ignore_MSB si))"
  let ?a = "uint (push_bit ?m (t + 0x8000000000000000))"
  from shard_id_halves [OF assms, of t] obtain r
    where r: "shard_id si t = Some r" "uint r = halves ?a (uint (shards_count si))" by blast
  have a: "0 \<le> ?a" "?a < 2 ^ 64"
    using unsigned_less [of "push_bit ?m (t + 0x8000000000000000)", where 'a = int] by simp_all
  have b: "0 \<le> uint r \<and> uint r < uint (shards_count si)"
    unfolding r(2) using a assms(1) by (intro halves_bound) simp_all
  then have "uint r < 2 ^ 31" using assms(2) by simp
  then have s: "sint r = uint r" by (rule sint_small)
  have "?a = ((sint t + 2 ^ 63) mod 2 ^ 64 * 2 ^ ?m) mod 2 ^ 64"
    by (simp only: uint_shl uint_bias)
  then have "shard_id_reference (sint t) (uint (shards_count si)) ?m = uint r"
    by (simp only: reference_halves r(2))
  with r(1) b s show ?thesis by simp
qed

theorem shard_id_matches_reference_witness:
  "1 \<le> uint (4 :: size_t) \<and> uint (4 :: size_t) \<le> 2 ^ 31
   \<and> 0 \<le> sint (12 :: int32_t) \<and> sint (12 :: int32_t) < 64
   \<and> (\<exists>r. shard_id \<lparr>shards_count = 4, partitioner = [], sharding_algorithm = [],
                       sharding_ignore_MSB = 12, shard_aware_port = None,
                       shard_aware_port_ssl = None\<rparr> 1234567890 = Some r
          \<and> sint r = shard_id_reference (sint (1234567890 :: int64_t)) (uint (4 :: size_t))
                        (nat (sint (12 :: int32_t)))
          \<and> 0 \<le> sint r \<and> sint r < uint (4 :: size_t))"
  using shard_id_matches_reference
    [of "\<lparr>shards_count = 4, partitioner = [], sharding_algorithm = [],
          sharding_ignore_MSB = 12, shard_aware_port = None,
          shard_aware_port_ssl = None\<rparr>" 1234567890]
  by simp

text \<open>
  Claim C1 as stated fails. With \<open>n = 2^32 - 1\<close>, \<open>m = 0\<close> and the largest token, the source
  returns \<open>-3\<close>, which is not in \<open>[0, n)\<close>, while the reference computation gives
  \<open>2^32 - 2\<close>; with \<open>m = 64\<close> the shift of the source is undefined.
\<close>

theorem shard_id_counterexample:
  "map_option sint
     (shard_id \<lparr>shards_count = 0xffffffff, partitioner = [], sharding_algorithm = [],
                sharding_ignore_MSB = 0, shard_aware_port = None,
                shard_aware_port_ssl = None\<rparr> 0x7fffffffffffffff) = Some (- 3)
   \<and> shard_id_reference (sint (0x7fffffffffffffff :: int64_t)) (uint (0xffffffff :: size_t)) 0
       = 4294967294
   \<and> shard_id \<lparr>shards_count = 4, partitioner = [], sharding_algorithm = [],
                sharding_ignore_MSB = 64, shard_aware_port = None,
                shard_aware_port_ssl = None\<rparr> 0 = None"
  by (simp add: shard_id_def shard_id_reference_def Let_def)

section \<open>Theorems about parsing the supported options\<close>

lemmas key_defs = SCYLLA_SHARD_PARAM_KEY_def SCYLLA_NR_SHARDS_PARAM_KEY_def SCYLLA_PARTITIONER_def
  SCYLLA_SHARDING_ALGORITHM_def SCYLLA_SHARDING_IGNORE_MSB_def SCYLLA_SHARD_AWARE_PORT_def
  SCYLLA_SHARD_AWARE_PORT_SSL_def

lemma parse_string_Some: "parse_string params key = Some v \<longleftrightarrow> params key = Some [v]"
  by (cases "params key") (auto simp add: parse_string_def length_Suc_conv)

lemma parse_string_None: "parse_string params key = None \<longleftrightarrow> \<not> singleton_value params key"
  by (cases "params key") (auto simp add: parse_string_def singleton_value_def)

lemma parse_int_None: "parse_int params key = None \<longleftrightarrow> \<not> singleton_value params key"
  by (cases "parse_string params key") (auto simp add: parse_int_def parse_string_None [symmetric])

lemma parse_int_Some: "parse_int params key = Some i \<longleftrightarrow> (\<exists>v. params key = Some [v] \<and> i = atoi v)"
  by (cases "parse_string params key") (auto simp add: parse_int_def parse_string_Some [symmetric])

lemma singleton_value_Some: "params key = Some [v] \<Longrightarrow> singleton_value params key"
  by (simp add: singleton_value_def)

lemma parse_sharding_info_Some_iff:
  "parse_sharding_info params \<noteq> None \<longleftrightarrow>
     parse_int params ''SCYLLA_SHARD'' \<noteq> None \<and> parse_int params ''SCYLLA_NR_SHARDS'' \<noteq> None
     \<and> parse_string params ''SCYLLA_PARTITIONER'' = Some ''org.apache.cassandra.dht.Murmur3Partitioner''
     \<and> parse_string params ''SCYLLA_SHARDING_ALGORITHM'' = Some ''biased-token-round-robin''
     \<and> parse_int params ''SCYLLA_SHARDING_IGNORE_MSB'' \<noteq> None"
  unfolding parse_sharding_info_def Let_def key_defs by auto

lemma parse_sharding_info_iff:
  "parse_sharding_info params \<noteq> None \<longleftrightarrow> descriptor_expected params"
  unfolding parse_sharding_info_Some_iff descriptor_expected_def parse_int_None parse_string_Some
  by (auto simp add: singleton_value_Some)

lemma parse_sharding_info_None:
  "parse_sharding_info params = None \<longleftrightarrow> \<not> descriptor_expected params"
  using parse_sharding_info_iff [of params] by blast

lemma parse_sharding_info_ex:
  "(\<exists>d. parse_sharding_info params = Some d) \<longleftrightarrow> descriptor_expected params"
  using parse_sharding_info_iff [of params] by auto

lemma parse_string_upd: "key \<noteq> k \<Longrightarrow> parse_string (params(k := v)) key = parse_string params key"
  by (simp add: parse_string_def)

lemma parse_int_upd: "key \<noteq> k \<Longrightarrow> parse_int (params(k := v)) key = parse_int params key"
  by (simp add: parse_int_def parse_string_upd)

lemma parse_required_fields:
  "map_option required_fields (parse_sharding_info params) =
     (if descriptor_expected params
      then Some (the (parse_int params ''SCYLLA_SHARD''), scast (the (parse_int params ''SCYLLA_NR_SHARDS'')),
                 ''org.apache.cassandra.dht.Murmur3Partitioner'', ''biased-token-round-robin'',
                 the (parse_int params ''SCYLLA_SHARDING_IGNORE_MSB''))
      else None)"
proof (cases "descriptor_expected params")
  case True
  then obtain d where d: "parse_sharding_info params = Some d"
    using parse_sharding_info_ex by blast
  then show ?thesis using True
    by (auto simp add: parse_sharding_info_def Let_def key_defs required_fields_def split: if_splits)
next
  case False
  then have "parse_sharding_info params = None" using parse_sharding_info_iff by blast
  then show ?thesis using False by simp
qed

lemma parse_ports:
  "map_option (\<lambda>d. (shard_aware_port (csi_sharding_info d), shard_aware_port_ssl (csi_sharding_info d)))
      (parse_sharding_info params) =
     (if descriptor_expected params
      then Some (parse_int params ''SCYLLA_SHARD_AWARE_PORT'', parse_int params ''SCYLLA_SHARD_AWARE_PORT_SSL'')
      else None)"
proof (cases "descriptor_expected params")
  case True
  then obtain d where d: "parse_sharding_info params = Some d"
    using parse_sharding_info_ex by blast
  then show ?thesis using True
    by (auto simp add: parse_sharding_info_def Let_def key_defs split: if_splits)
next
  case False
  then have "parse_sharding_info params = None" using parse_sharding_info_iff by blast
  then show ?thesis using False by simp
qed

lemma descriptor_expected_ports:
  "descriptor_expected (params(''SCYLLA_SHARD_AWARE_PORT'' := v1, ''SCYLLA_SHARD_AWARE_PORT_SSL'' := v2))
     = descriptor_expected params"
  by (simp add: descriptor_expected_def singleton_value_def)

text \<open>
  Claim C3. \<open>parse_sharding_info\<close> returns a descriptor if and only if the shard-id,
  shard-count, partitioner, algorithm and ignore-MSB keys are each present with exactly one
  value and the partitioner and algorithm values are the supported ones. The two
  shard-aware-port keys do not affect that, nor any field the required keys determine: each
  port field is what \<open>parse_int\<close> reads for its key, \<open>None\<close> when the key is absent.
\<close>

theorem parse_sharding_info_contract:
  "(parse_sharding_info params \<noteq> None \<longleftrightarrow> descriptor_expected params)
   \<and> map_option required_fields
        (parse_sharding_info
           (params(''SCYLLA_SHARD_AWARE_PORT'' := v1, ''SCYLLA_SHARD_AWARE_PORT_SSL'' := v2)))
       = map_option required_fields (parse_sharding_info params)
   \<and> map_option (\<lambda>d. (shard_aware_port (csi_sharding_info d), shard_aware_port_ssl (csi_sharding_info d)))
        (parse_sharding_info params)
       = (if descriptor_expected params
          then Some (parse_int params ''SCYLLA_SHARD_AWARE_PORT'',
                     parse_int params ''SCYLLA_SHARD_AWARE_PORT_SSL'')
          else None)"
  using parse_sharding_info_iff [of params]
  by (simp only: parse_required_fields parse_ports descriptor_expected_ports) (simp add: parse_int_upd)


theorem parse_sharding_info_contract_witness:
  "descriptor_expected example_options \<and> parse_sharding_info example_options \<noteq> None
   \<and> map_option (\<lambda>d. (shard_aware_port (csi_sharding_info d), shard_aware_port_ssl (csi_sharding_info d)))
        (parse_sharding_info example_options) = Some (None, None)"
proof -
  have e: "descriptor_expected example_options"
    by (simp add: descriptor_expected_def singleton_value_def example_options_def)
  have p: "parse_int example_options ''SCYLLA_SHARD_AWARE_PORT'' = None"
      "parse_int example_options ''SCYLLA_SHARD_AWARE_PORT_SSL'' = None"
    by (simp_all add: parse_int_def parse_string_def example_options_def)
  show ?thesis
    using parse_sharding_info_contract [of example_options] e p by simp
qed

lemma atoi_no_number:
  "dropWhile isspace v = [] \<or> (\<exists>c cs. dropWhile isspace v = c # cs \<and> \<not> isdigit c
       \<and> c \<noteq> CHR ''-'' \<and> c \<noteq> CHR ''+'') \<Longrightarrow> atoi v = 0"
proof (elim disjE exE conjE)
  assume "dropWhile isspace v = []"
  then show ?thesis unfolding atoi_def strtol10_def by (simp only: list.case) simp
next
  fix c cs
  assume "dropWhile isspace v = c # cs" "\<not> isdigit c" "c \<noteq> CHR ''-''" "c \<noteq> CHR ''+''"
  then show ?thesis unfolding atoi_def strtol10_def
    by (simp only: list.case if_False digits_value.simps) (simp add: clamp_long_def)
qed

text \<open>
  Claim C4, as the code supports it. Whenever the five required keys are singletons and the
  partitioner and algorithm match, a descriptor is returned, whatever the integer values
  are; every descriptor returned has all its required fields, each integer being \<open>atoi\<close> of
  the single value of its key (the shard count converted to \<open>size_t\<close>), and the recognised
  partitioner and algorithm; and \<open>atoi\<close> yields 0 for a value with no number in it.
\<close>

theorem parse_sharding_info_lenient:
  "(descriptor_expected params \<longrightarrow> parse_sharding_info params \<noteq> None)
   \<and> (\<forall>d. parse_sharding_info params = Some d \<longrightarrow>
        (\<exists>s c g. params ''SCYLLA_SHARD'' = Some [s]
           \<and> params ''SCYLLA_NR_SHARDS'' = Some [c]
           \<and> params ''SCYLLA_SHARDING_IGNORE_MSB'' = Some [g]
           \<and> csi_shard_id d = atoi s
           \<and> shards_count (csi_sharding_info d) = scast (atoi c)
           \<and> sharding_ignore_MSB (csi_sharding_info d) = atoi g
           \<and> partitioner (csi_sharding_info d) = ''org.apache.cassandra.dht.Murmur3Partitioner''
           \<and> sharding_algorithm (csi_sharding_info d) = ''biased-token-round-robin''))
   \<and> (\<forall>v. dropWhile isspace v = [] \<or> (\<exists>c cs. dropWhile isspace v = c # cs \<and> \<not> isdigit c
           \<and> c \<noteq> CHR ''-'' \<and> c \<noteq> CHR ''+'') \<longrightarrow> atoi v = 0)"
proof (intro conjI allI impI)
  assume "descriptor_expected params"
  then show "parse_sharding_info params \<noteq> None" by (simp only: parse_sharding_info_iff)
next
  fix d
  assume d: "parse_sharding_info params = Some d"
  then have e: "descriptor_expected params" using parse_sharding_info_ex by blast
  from d have "parse_sharding_info params \<noteq> None" by simp
  then obtain a b c where i: "parse_int params ''SCYLLA_SHARD'' = Some a"
      "parse_int params ''SCYLLA_NR_SHARDS'' = Some b"
      "parse_int params ''SCYLLA_SHARDING_IGNORE_MSB'' = Some c"
    unfolding parse_sharding_info_Some_iff by auto
  from i obtain s where s: "params ''SCYLLA_SHARD'' = Some [s]" "a = atoi s"
    unfolding parse_int_Some by blast
  from i obtain n where n: "params ''SCYLLA_NR_SHARDS'' = Some [n]" "b = atoi n"
    unfolding parse_int_Some by blast
  from i obtain g where g: "params ''SCYLLA_SHARDING_IGNORE_MSB'' = Some [g]" "c = atoi g"
    unfolding parse_int_Some by blast
  have "map_option required_fields (parse_sharding_info params) =
      Some (a, scast b, ''org.apache.cassandra.dht.Murmur3Partitioner'', ''biased-token-round-robin'', c)"
    using e i by (simp only: parse_required_fields) simp
  then have "required_fields d =
      (atoi s, scast (atoi n), ''org.apache.cassandra.dht.Murmur3Partitioner'', ''biased-token-round-robin'', atoi g)"
    using d s n g by simp
  then show "\<exists>s c g. params ''SCYLLA_SHARD'' = Some [s]
           \<and> params ''SCYLLA_NR_SHARDS'' = Some [c]
           \<and> params ''SCYLLA_SHARDING_IGNORE_MSB'' = Some [g]
           \<and> csi_shard_id d = atoi s
           \<and> shards_count (csi_sharding_info d) = scast (atoi c)
           \<and> sharding_ignore_MSB (csi_sharding_info d) = atoi g
           \<and> partitioner (csi_sharding_info d) = ''org.apache.cassandra.dht.Murmur3Partitioner''
           \<and> sharding_algorithm (csi_sharding_info d) = ''biased-token-round-robin''"
    using s n g by (simp add: required_fields_def)
next
  fix v
  assume "dropWhile isspace v = [] \<or> (\<exists>c cs. dropWhile isspace v = c # cs \<and> \<not> isdigit c
           \<and> c \<noteq> CHR ''-'' \<and> c \<noteq> CHR ''+'')"
  then show "atoi v = 0" by (rule atoi_no_number)
qed

theorem parse_sharding_info_lenient_witness:
  "descriptor_expected example_options
   \<and> (\<exists>d. parse_sharding_info example_options = Some d
          \<and> shards_count (csi_sharding_info d) = scast (atoi ''abc'')
          \<and> sharding_ignore_MSB (csi_sharding_info d) = atoi ''-1'')"
proof -
  have e: "descriptor_expected example_options"
    by (simp add: descriptor_expected_def singleton_value_def example_options_def)
  from parse_sharding_info_lenient [of example_options] e
  obtain d where d: "parse_sharding_info example_options = Some d" by auto
  with parse_sharding_info_lenient [of example_options]
  have "shards_count (csi_sharding_info d) = scast (atoi ''abc'')
          \<and> sharding_ignore_MSB (csi_sharding_info d) = atoi ''-1''"
    by (auto simp add: example_options_def)
  with e d show ?thesis by simp
qed

text \<open>
  Claim C4 as stated fails: with the shard count \<open>abc\<close> and the ignore-MSB \<open>-1\<close> a
  descriptor is returned, its \<open>shards_count\<close> being 0 and its ignore-MSB negative.
\<close>

theorem parse_sharding_info_counterexample:
  "parse_sharding_info
     [''SCYLLA_SHARD'' \<mapsto> [''0''], ''SCYLLA_NR_SHARDS'' \<mapsto> [''abc''],
      ''SCYLLA_PARTITIONER'' \<mapsto> [''org.apache.cassandra.dht.Murmur3Partitioner''],
      ''SCYLLA_SHARDING_ALGORITHM'' \<mapsto> [''biased-token-round-robin''],
      ''SCYLLA_SHARDING_IGNORE_MSB'' \<mapsto> [''-1'']]
   = Some \<lparr>csi_shard_id = 0,
            csi_sharding_info = \<lparr>shards_count = 0,
               partitioner = ''org.apache.cassandra.dht.Murmur3Partitioner'',
               sharding_algorithm = ''biased-token-round-robin'',
               sharding_ignore_MSB = - 1, shard_aware_port = None, shard_aware_port_ssl = None\<rparr>\<rparr>"
  by (simp add: parse_sharding_info_def parse_int_def parse_string_def key_defs
       atoi_def strtol10_def isspace_def isdigit_def clamp_long_def)

section \<open>Theorems about dispatch\<close>

lemma least_busy_spec_alt:
  "least_busy_spec cs = find (no_lower (filter (\<lambda>c. \<not> is_closing c) cs)) (filter (\<lambda>c. \<not> is_closing c) cs)"
  by (simp add: least_busy_spec_def Let_def)

lemma filter_all: "filter P xs = zs \<Longrightarrow> \<forall>c \<in> set zs. P c"
  by auto

lemma find_snoc:
  "find Q (xs @ [y]) = (case find Q xs of Some r \<Rightarrow> Some r | None \<Rightarrow> if Q y then Some y else None)"
  by (induction xs) simp_all

lemma find_stronger:
  "find P xs = Some r \<Longrightarrow> (\<And>c. c \<in> set xs \<Longrightarrow> Q c \<Longrightarrow> P c) \<Longrightarrow> Q r \<Longrightarrow> find Q xs = Some r"
proof (induction xs)
  case Nil
  then show ?case by simp
next
  case (Cons x xs)
  show ?case
  proof (cases "P x")
    case True
    with Cons.prems show ?thesis by simp
  next
    case False
    with Cons.prems have "\<not> Q x" by auto
    moreover from False Cons.prems have "find P xs = Some r" by simp
    ultimately show ?thesis using Cons by simp
  qed
qed

lemma find_SomeD: "find P xs = Some r \<Longrightarrow> r \<in> set xs \<and> P r"
  by (induction xs) (auto split: if_splits)

lemma min_element_from_snoc:
  "min_element_from s (ys @ [y]) =
     (if least_busy_comp y (min_element_from s ys) then y else min_element_from s ys)"
  by (induction ys arbitrary: s) simp_all

lemma first_lowest:
  assumes "\<forall>c \<in> set (s # ys). \<not> is_closing c"
  shows "find (no_lower (s # ys)) (s # ys) = Some (min_element_from s ys)"
  using assms
proof (induction ys rule: rev_induct)
  case Nil
  then show ?case by (simp add: no_lower_def)
next
  case (snoc y ys)
  let ?r = "min_element_from s ys"
  from snoc have ih: "find (no_lower (s # ys)) (s # ys) = Some ?r" by simp
  from find_SomeD [OF ih] have r: "?r \<in> set (s # ys)" "no_lower (s # ys) ?r" by simp_all
  from snoc.prems r(1) have live: "\<not> is_closing y" "\<not> is_closing ?r" by auto
  show ?case
  proof (cases "inflight_request_count y < inflight_request_count ?r")
    case True
    have "\<not> no_lower (s # ys @ [y]) c" if "c \<in> set (s # ys)" for c
      using r(2) that True by (fastforce simp add: no_lower_def)
    then have "find (no_lower (s # ys @ [y])) (s # ys) = None"
      by (simp only: find_None_iff) blast
    moreover have "no_lower (s # ys @ [y]) y"
      using r(2) True by (fastforce simp add: no_lower_def)
    moreover have "min_element_from s (ys @ [y]) = y"
      using True live by (simp add: min_element_from_snoc least_busy_comp_def)
    ultimately show ?thesis
      using find_snoc [of "no_lower (s # ys @ [y])" "s # ys" y] by simp
  next
    case False
    have "find (no_lower (s # ys @ [y])) (s # ys) = Some ?r"
    proof (rule find_stronger [OF ih])
      fix c assume "c \<in> set (s # ys)" "no_lower (s # ys @ [y]) c"
      then show "no_lower (s # ys) c" by (simp add: no_lower_def)
    next
      show "no_lower (s # ys @ [y]) ?r" using r(2) False by (simp add: no_lower_def)
    qed
    moreover have "min_element_from s (ys @ [y]) = ?r"
      using False live by (simp add: min_element_from_snoc least_busy_comp_def)
    ultimately show ?thesis
      using find_snoc [of "no_lower (s # ys @ [y])" "s # ys" y] by simp
  qed
qed

lemma min_element_from_in: "min_element_from s xs \<in> set (s # xs)"
proof (induction xs arbitrary: s)
  case Nil
  show ?case by simp
next
  case (Cons x xs)
  show ?case
    using Cons [of "if least_busy_comp x s then x else s"] by (auto split: if_splits)
qed

lemma live_skip:
  "\<not> is_closing s \<Longrightarrow> min_element_from s xs = min_element_from s (filter (\<lambda>c. \<not> is_closing c) xs)"
proof (induction xs arbitrary: s)
  case Nil
  show ?case by simp
next
  case (Cons x xs)
  show ?case
  proof (cases "is_closing x")
    case True
    then have "\<not> least_busy_comp x s" by (simp add: least_busy_comp_def)
    with True Cons show ?thesis by simp
  next
    case False
    then have "\<not> is_closing (if least_busy_comp x s then x else s)" using Cons.prems by simp
    from Cons.IH [OF this] False show ?thesis by simp
  qed
qed

lemma closing_start:
  "is_closing s \<Longrightarrow> min_element_from s xs =
     (case filter (\<lambda>c. \<not> is_closing c) xs of [] \<Rightarrow> s | y # ys \<Rightarrow> min_element_from y ys)"
proof (induction xs arbitrary: s)
  case Nil
  show ?case by simp
next
  case (Cons x xs)
  show ?case
  proof (cases "is_closing x")
    case True
    then have "\<not> least_busy_comp x s" by (simp add: least_busy_comp_def)
    with True Cons show ?thesis by simp
  next
    case False
    then have "least_busy_comp x s" using Cons.prems by (simp add: least_busy_comp_def)
    with False live_skip [of x xs] show ?thesis by simp
  qed
qed

lemma min_element_live:
  "min_element xs =
     (case xs of [] \<Rightarrow> None
      | x # rest \<Rightarrow> (case filter (\<lambda>c. \<not> is_closing c) xs of
                       [] \<Rightarrow> Some x
                     | y # ys \<Rightarrow> Some (min_element_from y ys)))"
proof (cases xs)
  case Nil
  then show ?thesis by (simp add: min_element_def)
next
  case (Cons x rest)
  show ?thesis
  proof (cases "is_closing x")
    case True
    with Cons closing_start [of x rest] show ?thesis
      by (simp add: min_element_def split: list.splits)
  next
    case False
    with Cons live_skip [of x rest] show ?thesis
      by (simp add: min_element_def)
  qed
qed

lemma least_busy_spec_live:
  "least_busy_spec xs =
     (case filter (\<lambda>c. \<not> is_closing c) xs of [] \<Rightarrow> None | y # ys \<Rightarrow> Some (min_element_from y ys))"
proof (cases "filter (\<lambda>c. \<not> is_closing c) xs")
  case Nil
  then show ?thesis by (simp add: least_busy_spec_alt)
next
  case (Cons y ys)
  then have "\<forall>c \<in> set (y # ys). \<not> is_closing c"
    by (rule filter_all)
  from first_lowest [OF this] Cons show ?thesis by (simp add: least_busy_spec_alt)
qed

lemma min_element_spec:
  "least_busy_spec xs =
     (case min_element xs of None \<Rightarrow> None | Some c \<Rightarrow> if is_closing c then None else Some c)"
proof (cases xs)
  case Nil
  then show ?thesis by (simp add: min_element_def least_busy_spec_alt)
next
  case (Cons x rest)
  show ?thesis
  proof (cases "filter (\<lambda>c. \<not> is_closing c) xs")
    case Nil
    then have "is_closing x" using Cons by (auto split: if_splits)
    with Nil Cons show ?thesis by (simp add: min_element_live least_busy_spec_live)
  next
    case c: (Cons y ys)
    then have l: "\<forall>c \<in> set (y # ys). \<not> is_closing c"
      by (rule filter_all)
    have "min_element_from y ys \<in> set (y # ys)" by (rule min_element_from_in)
    with l have "\<not> is_closing (min_element_from y ys)" by blast
    with c Cons show ?thesis by (simp add: min_element_live least_busy_spec_live)
  qed
qed

lemma step_skip:
  "foldl least_busy_step acc xs = foldl least_busy_step acc (filter (\<lambda>c. \<not> is_closing c) xs)"
  by (induction xs arbitrary: acc) (simp_all add: least_busy_step_def)

lemma step_live:
  "\<not> is_closing s \<Longrightarrow> \<forall>c \<in> set ys. \<not> is_closing c \<Longrightarrow>
     foldl least_busy_step (Some s) ys = Some (min_element_from s ys)"
proof (induction ys arbitrary: s)
  case Nil
  show ?case by simp
next
  case (Cons y ys)
  have "least_busy_step (Some s) y = Some (if least_busy_comp y s then y else s)"
    using Cons.prems by (simp add: least_busy_step_def std_min_def)
  moreover have "\<not> is_closing (if least_busy_comp y s then y else s)" using Cons.prems by simp
  ultimately show ?case using Cons by simp
qed

lemma entire_pool_concat:
  "least_busy_entire_pool slots = foldl least_busy_step None (concat slots)"
proof -
  have "foldl (\<lambda>lb pool. foldl least_busy_step lb pool) acc slots = foldl least_busy_step acc (concat slots)" for acc
    by (induction slots arbitrary: acc) simp_all
  then show ?thesis by (simp add: least_busy_entire_pool_def)
qed

lemma entire_pool_spec: "least_busy_entire_pool slots = least_busy_spec (concat slots)"
proof (cases "filter (\<lambda>c. \<not> is_closing c) (concat slots)")
  case Nil
  then show ?thesis
    unfolding entire_pool_concat least_busy_spec_live
    by (subst step_skip) simp
next
  case (Cons y ys)
  then have l: "\<forall>c \<in> set (y # ys). \<not> is_closing c"
    by (rule filter_all)
  then have "foldl least_busy_step (Some y) ys = Some (min_element_from y ys)"
    by (intro step_live) simp_all
  moreover have "least_busy_step None y = Some y" using l by (simp add: least_busy_step_def)
  ultimately show ?thesis using Cons
    unfolding entire_pool_concat least_busy_spec_live
    by (subst step_skip) simp
qed

lemma find_least_busy_sentinel:
  "token = CASS_INT64_MIN \<or> host_sharding_info p = None \<Longrightarrow>
     find_least_busy p token = Inr (least_busy_entire_pool (connections_by_shard p))"
  by (subst find_least_busy.simps) auto

lemma find_least_busy_shard:
  assumes "token \<noteq> CASS_INT64_MIN" "host_sharding_info p = Some si" "shard_id si token = Some s"
    "shard_index s < length (connections_by_shard p)"
  shows "find_least_busy p token =
     Inr (case least_busy_spec (connections_by_shard p ! shard_index s) of
            Some c \<Rightarrow> Some c
          | None \<Rightarrow> least_busy_spec (concat (connections_by_shard p)))"
proof -
  have f: "find_least_busy p CASS_INT64_MIN = Inr (least_busy_spec (concat (connections_by_shard p)))"
    by (simp add: find_least_busy_sentinel entire_pool_spec)
  show ?thesis
    using assms
    by (subst find_least_busy.simps)
      (simp add: f min_element_spec [of "connections_by_shard p ! shard_index s"] split: option.splits)
qed

lemma least_busy_spec_None: "least_busy_spec cs = None \<longleftrightarrow> (\<forall>c \<in> set cs. is_closing c)"
proof (cases "filter (\<lambda>c. \<not> is_closing c) cs")
  case Nil
  then show ?thesis by (simp add: least_busy_spec_live filter_empty_conv)
next
  case (Cons y ys)
  then have "y \<in> set (filter (\<lambda>c. \<not> is_closing c) cs)" by simp
  then have "\<exists>c \<in> set cs. \<not> is_closing c" by auto
  with Cons show ?thesis by (simp add: least_busy_spec_live)
qed

lemma least_busy_spec_Some:
  assumes "least_busy_spec cs = Some c"
  shows "c \<in> set cs \<and> \<not> is_closing c
     \<and> (\<forall>d \<in> set cs. \<not> is_closing d \<longrightarrow> inflight_request_count c \<le> inflight_request_count d)"
proof -
  from assms have "c \<in> set (filter (\<lambda>c. \<not> is_closing c) cs)
      \<and> no_lower (filter (\<lambda>c. \<not> is_closing c) cs) c"
    unfolding least_busy_spec_alt by (rule find_SomeD)
  then show ?thesis by (simp add: no_lower_def)
qed

lemma example_shard: "shard_id example_sharding 1234567890 = Some 2"
  by (simp add: shard_id_def example_sharding_def Let_def)

text \<open>
  Claim C8. The token \<open>CASS_INT64_MIN\<close>, the least 64-bit integer, always takes the search
  over all slots, with or without a sharding descriptor: the result is the one an
  un-sharded pool gives for any token, so the slot of that token plays no part.
\<close>

theorem find_least_busy_min_token:
  "sint CASS_INT64_MIN = - (2 ^ 63)
   \<and> find_least_busy p CASS_INT64_MIN = Inr (least_busy_spec (concat (connections_by_shard p)))
   \<and> find_least_busy p CASS_INT64_MIN = find_least_busy (p\<lparr>host_sharding_info := None\<rparr>) token"
  by (simp add: find_least_busy_sentinel entire_pool_spec CASS_INT64_MIN_def)

theorem find_least_busy_min_token_witness:
  "shard_id example_sharding CASS_INT64_MIN = Some 0
   \<and> shard_id example_sharding (CASS_INT64_MIN + 1) = Some 0
   \<and> find_least_busy
       (example_pool (Some example_sharding) [[example_conn 0 0 5], [example_conn 1 1 0], [], []])
       CASS_INT64_MIN = Inr (Some (example_conn 1 1 0))
   \<and> find_least_busy
       (example_pool (Some example_sharding) [[example_conn 0 0 5], [example_conn 1 1 0], [], []])
       (CASS_INT64_MIN + 1) = Inr (Some (example_conn 0 0 5))"
proof -
  have s: "shard_id example_sharding CASS_INT64_MIN = Some 0"
      "shard_id example_sharding (CASS_INT64_MIN + 1) = Some 0"
    by (simp_all add: shard_id_def example_sharding_def Let_def CASS_INT64_MIN_def)
  have a: "find_least_busy
       (example_pool (Some example_sharding) [[example_conn 0 0 5], [example_conn 1 1 0], [], []])
       CASS_INT64_MIN = Inr (Some (example_conn 1 1 0))"
    using find_least_busy_min_token
      [of "example_pool (Some example_sharding) [[example_conn 0 0 5], [example_conn 1 1 0], [], []]"]
    by (simp add: example_pool_def least_busy_spec_def no_lower_def example_conn_def)
  have b: "find_least_busy
       (example_pool (Some example_sharding) [[example_conn 0 0 5], [example_conn 1 1 0], [], []])
       (CASS_INT64_MIN + 1) = Inr (Some (example_conn 0 0 5))"
    using s(2)
    by (subst find_least_busy.simps)
      (simp add: example_pool_def example_conn_def CASS_INT64_MIN_def shard_index_def
        min_element_def)
  from s a b show ?thesis by simp
qed

section \<open>Theorems about construction\<close>

lemma add_connection_length:
  "add_connection c p = Inr p1 \<Longrightarrow> length (connections_by_shard p1) = length (connections_by_shard p)"
  by (auto simp add: add_connection_def Let_def split: if_splits)

lemma add_connection_in_range:
  "shard_index (conn_shard_id c) < length (connections_by_shard p) \<Longrightarrow> \<exists>p1. add_connection c p = Inr p1"
  by (simp add: add_connection_def Let_def)

lemma add_initial_result:
  "(\<exists>p1. add_initial cs p = Inr p1 \<and> length (connections_by_shard p1) = length (connections_by_shard p)
        \<and> (\<forall>c \<in> set cs. \<not> is_closing c \<longrightarrow> shard_index (conn_shard_id c) < length (connections_by_shard p)))
   \<or> (add_initial cs p = Inl IndexOutOfBounds
        \<and> (\<exists>c \<in> set cs. \<not> is_closing c \<and> length (connections_by_shard p) \<le> shard_index (conn_shard_id c)))"
proof (induction cs arbitrary: p)
  case Nil
  show ?case by simp
next
  case (Cons c cs)
  show ?case
  proof (cases "is_closing c")
    case True
    with Cons [of p] show ?thesis by auto
  next
    case live: False
    show ?thesis
    proof (cases "length (connections_by_shard p) \<le> shard_index (conn_shard_id c)")
      case True
      with live show ?thesis by auto
    next
      case inside: False
      show ?thesis
      proof (cases "length (connections_by_shard p ! shard_index (conn_shard_id c)) < unat (num_connections_per_shard p)")
        case True
        from inside obtain p1 where p1: "add_connection c p = Inr p1"
          using add_connection_in_range [of c p] by auto
        then have l: "length (connections_by_shard p1) = length (connections_by_shard p)"
          by (rule add_connection_length)
        from Cons [of p1] live inside True p1 l show ?thesis by auto
      next
        case False
        from Cons [of "p\<lparr>closed_unpooled := closed_unpooled p @ [conn_id c]\<rparr>"] live inside False
        show ?thesis by auto
      qed
    qed
  qed
qed

lemma new_pool_slots:
  "ConnectionPool_new cs si n = Inr p \<Longrightarrow> shards_in_range cs si"
proof -
  assume a: "ConnectionPool_new cs si n = Inr p"
  then have z: "\<not> (case si of None \<Rightarrow> False | Some i \<Rightarrow> shards_count i = 0)"
    by (auto simp add: ConnectionPool_new_def split: if_splits)
  define p0 where "p0 = \<lparr>host_sharding_info = si,
                  num_connections_per_host = n,
                  connections_by_shard =
                    (case si of
                       None \<Rightarrow> replicate 1 []
                     | Some i \<Rightarrow> replicate (unat (shards_count i)) []),
                  num_connections_per_shard =
                    (case si of
                       None \<Rightarrow> n
                     | Some i \<Rightarrow> n div shards_count i
                         + (if n mod shards_count i \<noteq> 0 then 1 else 0)),
                  pending_connections = [],
                  reconnection_schedules = Map.empty,
                  close_state = CLOSE_STATE_OPEN,
                  notify_state = NOTIFY_STATE_NEW,
                  listener_events = [],
                  closed_unpooled = [],
                  ref_count = 1,
                  next_connector = 0,
                  next_schedule = 0\<rparr>"
  have len: "length (connections_by_shard p0) = slot_count si"
    using z by (cases si) (auto simp add: p0_def slot_count_def max_def Suc_le_eq unat_gt_0)
  from a z have "\<exists>p1. add_initial cs p0 = Inr p1"
    unfolding ConnectionPool_new_def p0_def [symmetric]
    by (auto simp add: Let_def split: sum.splits if_splits)
  with add_initial_result [of cs p0] len show ?thesis
    by (auto simp add: shards_in_range_def)
qed


lemma new_pool_no_overrun:
  assumes "shards_in_range cs si"
  shows "ConnectionPool_new cs si n \<noteq> Inl IndexOutOfBounds
     \<and> ((case si of
            None \<Rightarrow> True
          | Some i \<Rightarrow> shards_count i \<noteq> 0 \<and> unat (shards_count i) \<le> vector_max_size) \<longrightarrow>
          (\<exists>p. ConnectionPool_new cs si n = Inr p))"
proof (cases "case si of
                None \<Rightarrow> False
              | Some i \<Rightarrow> vector_max_size < unat (shards_count i) \<or> shards_count i = 0")
  case True
  then show ?thesis by (auto simp add: ConnectionPool_new_def split: option.splits)
next
  case zl: False
  then have z: "\<not> (case si of None \<Rightarrow> False | Some i \<Rightarrow> shards_count i = 0)"
    and l: "\<not> (case si of None \<Rightarrow> False | Some i \<Rightarrow> vector_max_size < unat (shards_count i))"
    by (auto split: option.splits)
  define p0 where "p0 = \<lparr>host_sharding_info = si,
                  num_connections_per_host = n,
                  connections_by_shard =
                    (case si of
                       None \<Rightarrow> replicate 1 []
                     | Some i \<Rightarrow> replicate (unat (shards_count i)) []),
                  num_connections_per_shard =
                    (case si of
                       None \<Rightarrow> n
                     | Some i \<Rightarrow> n div shards_count i
                         + (if n mod shards_count i \<noteq> 0 then 1 else 0)),
                  pending_connections = [],
                  reconnection_schedules = Map.empty,
                  close_state = CLOSE_STATE_OPEN,
                  notify_state = NOTIFY_STATE_NEW,
                  listener_events = [],
                  closed_unpooled = [],
                  ref_count = 1,
                  next_connector = 0,
                  next_schedule = 0\<rparr>"
  have len: "length (connections_by_shard p0) = slot_count si"
    using z by (cases si) (auto simp add: p0_def slot_count_def max_def Suc_le_eq unat_gt_0)
  from add_initial_result [of cs p0] assms len obtain p1 where "add_initial cs p0 = Inr p1"
    by (fastforce simp add: shards_in_range_def)
  with z l show ?thesis
    unfolding ConnectionPool_new_def p0_def [symmetric] by (simp add: Let_def)
qed

lemma new_pool_length_error:
  "(case si of None \<Rightarrow> False | Some i \<Rightarrow> vector_max_size < unat (shards_count i)) \<Longrightarrow>
     ConnectionPool_new cs si n = Inl LengthError"
  by (simp add: ConnectionPool_new_def)

lemma on_reconnect_checked: "on_reconnect k outcome p \<noteq> Inl IndexOutOfBounds"
  by (auto simp add: on_reconnect_def add_connection_def Let_def
        split: option.splits ConnectorOutcome.splits sum.splits if_splits)

text \<open>
  Claim C10. The constructor indexes \<open>connections_by_shard_\<close> by the shard id of each
  supplied non-closing connection without a check, and \<open>on_reconnect\<close> checks the index
  before it inserts. A construction that succeeds had every supplied non-closing connection
  report a shard below \<open>max(1, shards_count)\<close>; under that precondition the constructor
  never reads beyond the end, and it succeeds when the descriptor's shard count is neither 0
  (a division by zero, before any index is used) nor more than the vector of slots can hold
  (a \<open>std::length_error\<close> of \<open>resize\<close>, before any index is used, as for the count
  \<open>2^64 - 1\<close> that \<open>SCYLLA_NR_SHARDS = -1\<close> gives); \<open>on_reconnect\<close> never reads beyond
  the end.
\<close>

theorem constructor_bounds:
  "(\<forall>p. ConnectionPool_new connections si per_host = Inr p \<longrightarrow> shards_in_range connections si)
   \<and> (shards_in_range connections si \<longrightarrow>
        ConnectionPool_new connections si per_host \<noteq> Inl IndexOutOfBounds)
   \<and> (shards_in_range connections si
        \<and> (case si of
              None \<Rightarrow> True
            | Some i \<Rightarrow> shards_count i \<noteq> 0 \<and> unat (shards_count i) \<le> vector_max_size) \<longrightarrow>
        (\<exists>p. ConnectionPool_new connections si per_host = Inr p))
   \<and> ((case si of None \<Rightarrow> False | Some i \<Rightarrow> vector_max_size < unat (shards_count i)) \<longrightarrow>
        ConnectionPool_new connections si per_host = Inl LengthError)
   \<and> on_reconnect k outcome q \<noteq> Inl IndexOutOfBounds"
  using new_pool_slots [of connections si per_host]
    new_pool_no_overrun [of connections si per_host]
    new_pool_length_error [of si connections per_host] on_reconnect_checked [of k outcome q]
  by blast

section \<open>Invariants of runs\<close>

lemma count_list_snoc: "count_list (xs @ [y]) x = count_list xs x + (if x = y then 1 else 0)"
  by (induction xs) simp_all

lemma inv_notify_up_or_down: "pool_inv p \<Longrightarrow> pool_inv (notify_up_or_down p)"
  by (simp add: pool_inv_def notify_up_or_down_def emit_def count_list_snoc)

lemma inv_notify_critical_error: "pool_inv p \<Longrightarrow> pool_inv (notify_critical_error p)"
  by (simp add: pool_inv_def notify_critical_error_def emit_def count_list_snoc)

lemma inv_schedule_reconnect: "pool_inv p \<Longrightarrow> pool_inv (schedule_reconnect s d p)"
  by (simp add: pool_inv_def schedule_reconnect_def Let_def)

lemma inv_maybe_closed: "pool_inv p \<Longrightarrow> pool_inv (maybe_closed p)"
  by (simp add: pool_inv_def maybe_closed_def emit_def count_list_snoc Let_def)

lemma inv_internal_close: "pool_inv p \<Longrightarrow> pool_inv (internal_close p)"
proof -
  assume a: "pool_inv p"
  show ?thesis
  proof (cases "close_state p = CLOSE_STATE_OPEN")
    case True
    have "pool_inv (p\<lparr>close_state := CLOSE_STATE_CLOSING,
        connections_by_shard := map (map connection_close) (connections_by_shard p),
        pending_connections := map connector_cancel (pending_connections p),
        close_state := CLOSE_STATE_WAITING_FOR_CONNECTIONS\<rparr>)"
      using a True by (simp add: pool_inv_def)
    then show ?thesis using True
      by (simp add: internal_close_def Let_def inv_maybe_closed)
  next
    case False
    with a show ?thesis by (simp add: internal_close_def)
  qed
qed

lemma inv_add_connection: "pool_inv p \<Longrightarrow> add_connection c p = Inr p1 \<Longrightarrow> pool_inv p1"
  by (auto simp add: pool_inv_def add_connection_def Let_def split: if_splits)

lemma inv_close_connection: "pool_inv p \<Longrightarrow> close_connection c p = Inr p1 \<Longrightarrow> pool_inv p1"
proof -
  assume a: "pool_inv p" and b: "close_connection c p = Inr p1"
  define i where "i = shard_index (conn_shard_id c)"
  define q where "q = p\<lparr>connections_by_shard :=
                        (connections_by_shard p)
                          [i := filter (\<lambda>x. conn_id x \<noteq> conn_id c) (connections_by_shard p ! i)]\<rparr>"
  have q: "pool_inv q" using a by (simp add: q_def pool_inv_def)
  from b have "p1 = maybe_closed q \<or> p1 = schedule_reconnect None (Some (conn_shard_id c)) (notify_up_or_down q)"
    by (auto simp add: close_connection_def Let_def q_def i_def split: if_splits)
  with q show ?thesis
    by (auto intro: inv_maybe_closed inv_schedule_reconnect inv_notify_up_or_down)
qed

lemma inv_on_reconnect: "pool_inv p \<Longrightarrow> on_reconnect k outcome p = Inr p1 \<Longrightarrow> pool_inv p1"
proof -
  assume a: "pool_inv p" and b: "on_reconnect k outcome p = Inr p1"
  define q where "q = p\<lparr>pending_connections :=
                  filter (\<lambda>x. connector_id x \<noteq> connector_id k) (pending_connections p),
                  reconnection_schedules := (reconnection_schedules p)(connector_id k := None)\<rparr>"
  have q: "pool_inv q" using a by (simp add: q_def pool_inv_def)
  from b obtain s where s: "reconnection_schedules p (connector_id k) = Some s"
    by (auto simp add: on_reconnect_def Let_def split: option.splits)
  show ?thesis
  proof (cases "close_state p = CLOSE_STATE_OPEN")
    case False
    with b s have "p1 = maybe_closed q" by (simp add: on_reconnect_def Let_def q_def)
    with q show ?thesis by (simp add: inv_maybe_closed)
  next
    case op: True
    show ?thesis
    proof (cases outcome)
      case (CONNECTOR_OK conn)
      with b s op have "(\<exists>p3. add_connection conn q = Inr p3 \<and> p1 = notify_up_or_down p3)
          \<or> p1 = schedule_reconnect (Some s) (desired_shard_num k)
                  (q\<lparr>closed_unpooled := closed_unpooled q @ [conn_id conn]\<rparr>)"
        by (auto simp add: on_reconnect_def Let_def q_def split: if_splits sum.splits)
      moreover have "pool_inv (q\<lparr>closed_unpooled := closed_unpooled q @ [conn_id conn]\<rparr>)"
        using q by (simp add: pool_inv_def)
      ultimately show ?thesis using q
        by (auto intro: inv_schedule_reconnect inv_notify_up_or_down inv_add_connection)
    next
      case CONNECTOR_CANCELED
      with b s op have "p1 = q" by (simp add: on_reconnect_def Let_def q_def)
      with q show ?thesis by simp
    next
      case CONNECTOR_CRITICAL_ERROR
      with b s op have "p1 = internal_close (notify_critical_error q)"
        by (simp add: on_reconnect_def Let_def q_def)
      with q show ?thesis by (simp add: inv_internal_close inv_notify_critical_error)
    next
      case CONNECTOR_TRANSIENT_ERROR
      with b s op have "p1 = schedule_reconnect (Some s) (desired_shard_num k) q"
        by (simp add: on_reconnect_def Let_def q_def)
      with q show ?thesis by (simp add: inv_schedule_reconnect)
    qed
  qed
qed

lemma inv_step: "pool_inv p \<Longrightarrow> step x p = Inr p1 \<Longrightarrow> pool_inv p1"
  by (cases x) (auto intro: inv_internal_close inv_close_connection inv_on_reconnect)

lemma inv_run: "pool_inv p \<Longrightarrow> run xs p = Inr p1 \<Longrightarrow> pool_inv p1"
proof (induction xs arbitrary: p)
  case Nil
  then show ?case by simp
next
  case (Cons x xs)
  from Cons.prems obtain q where q: "step x p = Inr q" "run xs q = Inr p1"
    by (auto split: sum.splits)
  from inv_step [OF Cons.prems(1) q(1)] Cons.IH q(2) show ?case by blast
qed

lemma inv_add_initial: "pool_inv p \<Longrightarrow> add_initial cs p = Inr p1 \<Longrightarrow> pool_inv p1"
proof (induction cs arbitrary: p)
  case Nil
  then show ?case by simp
next
  case (Cons c cs)
  have u: "pool_inv (p\<lparr>closed_unpooled := closed_unpooled p @ [conn_id c]\<rparr>)"
    using Cons.prems(1) by (simp add: pool_inv_def)
  from Cons.prems(2) have "add_initial cs p = Inr p1
      \<or> (\<exists>q. add_connection c p = Inr q \<and> add_initial cs q = Inr p1)
      \<or> add_initial cs (p\<lparr>closed_unpooled := closed_unpooled p @ [conn_id c]\<rparr>) = Inr p1"
    by (auto split: if_splits sum.splits)
  with Cons.IH Cons.prems(1) u show ?case
    by (auto dest: inv_add_connection)
qed

lemma inv_schedule_times: "pool_inv p \<Longrightarrow> pool_inv (schedule_times i n p)"
  by (induction i arbitrary: p) (simp_all add: inv_schedule_reconnect)

lemma inv_schedule_missing: "pool_inv p \<Longrightarrow> pool_inv (schedule_missing ns p)"
  by (induction ns arbitrary: p) (simp_all add: inv_schedule_times)

lemma inv_new: "ConnectionPool_new cs si n = Inr p \<Longrightarrow> pool_inv p"
proof -
  assume a: "ConnectionPool_new cs si n = Inr p"
  define p0 where "p0 = \<lparr>host_sharding_info = si,
                  num_connections_per_host = n,
                  connections_by_shard =
                    (case si of
                       None \<Rightarrow> replicate 1 []
                     | Some i \<Rightarrow> replicate (unat (shards_count i)) []),
                  num_connections_per_shard =
                    (case si of
                       None \<Rightarrow> n
                     | Some i \<Rightarrow> n div shards_count i
                         + (if n mod shards_count i \<noteq> 0 then 1 else 0)),
                  pending_connections = [],
                  reconnection_schedules = Map.empty,
                  close_state = CLOSE_STATE_OPEN,
                  notify_state = NOTIFY_STATE_NEW,
                  listener_events = [],
                  closed_unpooled = [],
                  ref_count = 1,
                  next_connector = 0,
                  next_schedule = 0\<rparr>"
  have i0: "pool_inv p0" by (simp add: p0_def pool_inv_def)
  from a obtain p1 where p1: "add_initial cs p0 = Inr p1"
      "p = schedule_missing [0 ..< length (connections_by_shard (notify_up_or_down p1))] (notify_up_or_down p1)"
    unfolding ConnectionPool_new_def p0_def [symmetric]
    by (auto simp add: Let_def split: sum.splits if_splits)
  from inv_add_initial [OF i0 p1(1)] show ?thesis
    unfolding p1(2) by (intro inv_schedule_missing inv_notify_up_or_down)
qed

section \<open>Dispatch on the states a run reaches\<close>

lemma shard_index_small: "uint (s :: int32_t) < 2 ^ 31 \<Longrightarrow> int (shard_index s) = uint s"
proof -
  assume a: "uint s < 2 ^ 31"
  then have "sint s = uint s" by (rule sint_small)
  then have "(scast s :: size_t) = ucast s"
    by (metis of_int_sint of_int_uint)
  then have "uint (scast s :: size_t) = uint s"
    by (simp add: unsigned_ucast_eq take_bit_eq_mod) (use a uint_ge_0 [of s] in simp)
  then show ?thesis by (simp add: shard_index_def)
qed

lemma shard_id_in_range:
  assumes "1 \<le> uint (shards_count si)" "uint (shards_count si) \<le> 2 ^ 31"
    and "0 \<le> sint (sharding_ignore_MSB si)" "sint (sharding_ignore_MSB si) < 64"
  shows "\<exists>s. shard_id si t = Some s \<and> shard_index s < unat (shards_count si)"
proof -
  let ?m = "nat (sint (sharding_ignore_MSB si))"
  let ?a = "uint (push_bit ?m (t + 0x8000000000000000))"
  from shard_id_halves [OF assms, of t] obtain r
    where r: "shard_id si t = Some r" "uint r = halves ?a (uint (shards_count si))" by blast
  have a: "0 \<le> ?a" "?a < 2 ^ 64"
    using unsigned_less [of "push_bit ?m (t + 0x8000000000000000)", where 'a = int] by simp_all
  have b: "0 \<le> uint r \<and> uint r < uint (shards_count si)"
    unfolding r(2) using a assms(1) by (intro halves_bound) simp_all
  then have "uint r < 2 ^ 31" using assms(2) by simp
  then have "int (shard_index r) = uint r" by (rule shard_index_small)
  with b have "int (shard_index r) < int (unat (shards_count si))" by (simp only: of_nat_unat)
  then have "shard_index r < unat (shards_count si)" by (simp only: of_nat_less_iff)
  with r(1) show ?thesis by blast
qed

lemma shape_notify_up_or_down: "shape (notify_up_or_down p) = shape p"
  by (simp add: shape_def notify_up_or_down_def emit_def)

lemma shape_notify_critical_error: "shape (notify_critical_error p) = shape p"
  by (simp add: shape_def notify_critical_error_def emit_def)

lemma shape_schedule_reconnect: "shape (schedule_reconnect s d p) = shape p"
  by (simp add: shape_def schedule_reconnect_def Let_def)

lemma shape_maybe_closed: "shape (maybe_closed p) = shape p"
  by (simp add: shape_def maybe_closed_def emit_def Let_def)

lemma shape_internal_close: "shape (internal_close p) = shape p"
  by (simp add: shape_def internal_close_def maybe_closed_def emit_def Let_def)

lemma shape_add_connection: "add_connection c p = Inr p1 \<Longrightarrow> shape p1 = shape p"
  by (auto simp add: shape_def add_connection_def Let_def split: if_splits)

lemma shape_close_connection: "close_connection c p = Inr p1 \<Longrightarrow> shape p1 = shape p"
proof -
  assume b: "close_connection c p = Inr p1"
  define i where "i = shard_index (conn_shard_id c)"
  define q where "q = p\<lparr>connections_by_shard :=
                        (connections_by_shard p)
                          [i := filter (\<lambda>x. conn_id x \<noteq> conn_id c) (connections_by_shard p ! i)]\<rparr>"
  have q: "shape q = shape p" by (simp add: q_def shape_def)
  from b have "p1 = maybe_closed q \<or> p1 = schedule_reconnect None (Some (conn_shard_id c)) (notify_up_or_down q)"
    by (auto simp add: close_connection_def Let_def q_def i_def split: if_splits)
  with q show ?thesis
    by (auto simp add: shape_maybe_closed shape_schedule_reconnect shape_notify_up_or_down)
qed

lemma shape_on_reconnect: "on_reconnect k outcome p = Inr p1 \<Longrightarrow> shape p1 = shape p"
proof -
  assume b: "on_reconnect k outcome p = Inr p1"
  define q where "q = p\<lparr>pending_connections :=
                  filter (\<lambda>x. connector_id x \<noteq> connector_id k) (pending_connections p),
                  reconnection_schedules := (reconnection_schedules p)(connector_id k := None)\<rparr>"
  have q: "shape q = shape p" by (simp add: q_def shape_def)
  from b obtain s where s: "reconnection_schedules p (connector_id k) = Some s"
    by (auto simp add: on_reconnect_def Let_def split: option.splits)
  show ?thesis
  proof (cases "close_state p = CLOSE_STATE_OPEN")
    case False
    with b s have "p1 = maybe_closed q" by (simp add: on_reconnect_def Let_def q_def)
    with q show ?thesis by (simp add: shape_maybe_closed)
  next
    case op: True
    show ?thesis
    proof (cases outcome)
      case (CONNECTOR_OK conn)
      with b s op have "(\<exists>p3. add_connection conn q = Inr p3 \<and> p1 = notify_up_or_down p3)
          \<or> p1 = schedule_reconnect (Some s) (desired_shard_num k)
                  (q\<lparr>closed_unpooled := closed_unpooled q @ [conn_id conn]\<rparr>)"
        by (auto simp add: on_reconnect_def Let_def q_def split: if_splits sum.splits)
      moreover have "shape (q\<lparr>closed_unpooled := closed_unpooled q @ [conn_id conn]\<rparr>) = shape q"
        by (simp add: shape_def)
      ultimately show ?thesis using q
        by (auto simp add: shape_schedule_reconnect shape_notify_up_or_down dest: shape_add_connection)
    next
      case CONNECTOR_CANCELED
      with b s op have "p1 = q" by (simp add: on_reconnect_def Let_def q_def)
      with q show ?thesis by simp
    next
      case CONNECTOR_CRITICAL_ERROR
      with b s op have "p1 = internal_close (notify_critical_error q)"
        by (simp add: on_reconnect_def Let_def q_def)
      with q show ?thesis by (simp add: shape_internal_close shape_notify_critical_error)
    next
      case CONNECTOR_TRANSIENT_ERROR
      with b s op have "p1 = schedule_reconnect (Some s) (desired_shard_num k) q"
        by (simp add: on_reconnect_def Let_def q_def)
      with q show ?thesis by (simp add: shape_schedule_reconnect)
    qed
  qed
qed

lemma shape_step: "step x p = Inr p1 \<Longrightarrow> shape p1 = shape p"
  by (cases x) (auto simp add: shape_internal_close dest: shape_close_connection shape_on_reconnect)

lemma shape_run: "run xs p = Inr p1 \<Longrightarrow> shape p1 = shape p"
proof (induction xs arbitrary: p)
  case Nil
  then show ?case by simp
next
  case (Cons x xs)
  from Cons.prems obtain q where q: "step x p = Inr q" "run xs q = Inr p1"
    by (auto split: sum.splits)
  from shape_step [OF q(1)] Cons.IH [OF q(2)] show ?case by simp
qed

lemma shape_add_initial: "add_initial cs p = Inr p1 \<Longrightarrow> shape p1 = shape p"
proof (induction cs arbitrary: p)
  case Nil
  then show ?case by simp
next
  case (Cons c cs)
  have u: "shape (p\<lparr>closed_unpooled := closed_unpooled p @ [conn_id c]\<rparr>) = shape p"
    by (simp add: shape_def)
  from Cons.prems have "add_initial cs p = Inr p1
      \<or> (\<exists>q. add_connection c p = Inr q \<and> add_initial cs q = Inr p1)
      \<or> add_initial cs (p\<lparr>closed_unpooled := closed_unpooled p @ [conn_id c]\<rparr>) = Inr p1"
    by (auto split: if_splits sum.splits)
  with Cons.IH u show ?case
    by (auto dest: shape_add_connection)
qed

lemma shape_schedule_times: "shape (schedule_times i n p) = shape p"
  by (induction i arbitrary: p) (simp_all add: shape_schedule_reconnect)

lemma shape_schedule_missing: "shape (schedule_missing ns p) = shape p"
  by (induction ns arbitrary: p) (simp_all add: shape_schedule_times)

lemma shape_new:
  "ConnectionPool_new cs si n = Inr p \<Longrightarrow>
     shape p = (si, case si of None \<Rightarrow> 1 | Some i \<Rightarrow> unat (shards_count i))"
proof -
  assume a: "ConnectionPool_new cs si n = Inr p"
  define p0 where "p0 = \<lparr>host_sharding_info = si,
                  num_connections_per_host = n,
                  connections_by_shard =
                    (case si of
                       None \<Rightarrow> replicate 1 []
                     | Some i \<Rightarrow> replicate (unat (shards_count i)) []),
                  num_connections_per_shard =
                    (case si of
                       None \<Rightarrow> n
                     | Some i \<Rightarrow> n div shards_count i
                         + (if n mod shards_count i \<noteq> 0 then 1 else 0)),
                  pending_connections = [],
                  reconnection_schedules = Map.empty,
                  close_state = CLOSE_STATE_OPEN,
                  notify_state = NOTIFY_STATE_NEW,
                  listener_events = [],
                  closed_unpooled = [],
                  ref_count = 1,
                  next_connector = 0,
                  next_schedule = 0\<rparr>"
  have i0: "shape p0 = (si, case si of None \<Rightarrow> 1 | Some i \<Rightarrow> unat (shards_count i))"
    by (cases si) (simp_all add: p0_def shape_def)
  from a obtain p1 where p1: "add_initial cs p0 = Inr p1"
      "p = schedule_missing [0 ..< length (connections_by_shard (notify_up_or_down p1))] (notify_up_or_down p1)"
    unfolding ConnectionPool_new_def p0_def [symmetric]
    by (auto simp add: Let_def split: sum.splits if_splits)
  from shape_add_initial [OF p1(1)] i0 show ?thesis
    unfolding p1(2) by (simp add: shape_schedule_missing shape_notify_up_or_down)
qed

lemma find_least_busy_reachable:
  assumes "ConnectionPool_new cs (Some si) n = Inr p0" "run xs p0 = Inr p"
    and "1 \<le> uint (shards_count si)" "uint (shards_count si) \<le> 2 ^ 31"
    and "0 \<le> sint (sharding_ignore_MSB si)" "sint (sharding_ignore_MSB si) < 64"
    and "token \<noteq> CASS_INT64_MIN"
  shows "\<exists>s. shard_id si token = Some s \<and> shard_index s < length (connections_by_shard p)
     \<and> find_least_busy p token =
         Inr (case least_busy_spec (connections_by_shard p ! shard_index s) of
                Some c \<Rightarrow> Some c
              | None \<Rightarrow> least_busy_spec (concat (connections_by_shard p)))"
proof -
  from shape_new [OF assms(1)] shape_run [OF assms(2)]
  have sh: "host_sharding_info p = Some si" "length (connections_by_shard p) = unat (shards_count si)"
    by (simp_all add: shape_def)
  from shard_id_in_range [OF assms(3-6), of token] obtain s
    where s: "shard_id si token = Some s" "shard_index s < unat (shards_count si)" by blast
  from s(2) sh(2) have l: "shard_index s < length (connections_by_shard p)" by simp
  from find_least_busy_shard [OF assms(7) sh(1) s(1) l] s(1) l show ?thesis by blast
qed

text \<open>
  Claim C2. With the sentinel token or without a sharding descriptor, \<open>find_least_busy\<close>
  returns the first connection of lowest inflight count among the non-closing connections
  of all slots, in iteration order, or none when every connection is closing. Otherwise,
  when \<open>shard_id\<close> of the token names a slot of the pool, it returns that selection made in
  the slot alone, and falls back to the selection over all slots when the slot has no
  non-closing connection, which is exactly when the slot is empty or the best candidate of
  \<open>std::min_element\<close> is closing. The slot exists in every state a run reaches from a
  construction on a host whose descriptor has a shard count from 1 to \<open>2^31\<close> and an
  ignore-MSB count below 64. A non-closing connection compares below any closing one,
  whatever the inflight counts.
\<close>

theorem find_least_busy_selects:
  "(token = CASS_INT64_MIN \<or> host_sharding_info p = None \<longrightarrow>
      find_least_busy p token = Inr (least_busy_spec (concat (connections_by_shard p))))
   \<and> (token \<noteq> CASS_INT64_MIN \<and> host_sharding_info p = Some si \<and> shard_id si token = Some s
        \<and> shard_index s < length (connections_by_shard p) \<longrightarrow>
      find_least_busy p token =
        Inr (case least_busy_spec (connections_by_shard p ! shard_index s) of
               Some c \<Rightarrow> Some c
             | None \<Rightarrow> least_busy_spec (concat (connections_by_shard p))))
   \<and> (ConnectionPool_new connections (Some si) per_host = Inr p0 \<and> run xs p0 = Inr q
        \<and> 1 \<le> uint (shards_count si) \<and> uint (shards_count si) \<le> 2 ^ 31
        \<and> 0 \<le> sint (sharding_ignore_MSB si) \<and> sint (sharding_ignore_MSB si) < 64
        \<and> token \<noteq> CASS_INT64_MIN \<longrightarrow>
        (\<exists>r. shard_id si token = Some r \<and> shard_index r < length (connections_by_shard q)
           \<and> find_least_busy q token =
               Inr (case least_busy_spec (connections_by_shard q ! shard_index r) of
                      Some c \<Rightarrow> Some c
                    | None \<Rightarrow> least_busy_spec (concat (connections_by_shard q)))))
   \<and> (least_busy_spec cs = None \<longleftrightarrow> (\<forall>c \<in> set cs. is_closing c))
   \<and> (least_busy_spec cs = None \<longleftrightarrow>
        (case min_element cs of None \<Rightarrow> True | Some c \<Rightarrow> is_closing c))
   \<and> (\<not> is_closing a \<and> is_closing b \<longrightarrow> least_busy_comp a b \<and> \<not> least_busy_comp b a)"
proof (intro conjI impI)
  assume "ConnectionPool_new connections (Some si) per_host = Inr p0 \<and> run xs p0 = Inr q
        \<and> 1 \<le> uint (shards_count si) \<and> uint (shards_count si) \<le> 2 ^ 31
        \<and> 0 \<le> sint (sharding_ignore_MSB si) \<and> sint (sharding_ignore_MSB si) < 64
        \<and> token \<noteq> CASS_INT64_MIN"
  then have "ConnectionPool_new connections (Some si) per_host = Inr p0" "run xs p0 = Inr q"
    "1 \<le> uint (shards_count si)" "uint (shards_count si) \<le> 2 ^ 31"
    "0 \<le> sint (sharding_ignore_MSB si)" "sint (sharding_ignore_MSB si) < 64"
    "token \<noteq> CASS_INT64_MIN" by blast+
  then show "\<exists>r. shard_id si token = Some r \<and> shard_index r < length (connections_by_shard q)
           \<and> find_least_busy q token =
               Inr (case least_busy_spec (connections_by_shard q ! shard_index r) of
                      Some c \<Rightarrow> Some c
                    | None \<Rightarrow> least_busy_spec (concat (connections_by_shard q)))"
    by (rule find_least_busy_reachable)
next
  assume "token = CASS_INT64_MIN \<or> host_sharding_info p = None"
  then show "find_least_busy p token = Inr (least_busy_spec (concat (connections_by_shard p)))"
    by (simp only: find_least_busy_sentinel entire_pool_spec)
next
  assume "token \<noteq> CASS_INT64_MIN \<and> host_sharding_info p = Some si \<and> shard_id si token = Some s
        \<and> shard_index s < length (connections_by_shard p)"
  then have "token \<noteq> CASS_INT64_MIN" "host_sharding_info p = Some si" "shard_id si token = Some s"
    "shard_index s < length (connections_by_shard p)" by blast+
  then show "find_least_busy p token =
        Inr (case least_busy_spec (connections_by_shard p ! shard_index s) of
               Some c \<Rightarrow> Some c
             | None \<Rightarrow> least_busy_spec (concat (connections_by_shard p)))"
    by (rule find_least_busy_shard)
next
  show "least_busy_spec cs = None \<longleftrightarrow> (\<forall>c \<in> set cs. is_closing c)"
    by (rule least_busy_spec_None)
next
  show "least_busy_spec cs = None \<longleftrightarrow> (case min_element cs of None \<Rightarrow> True | Some c \<Rightarrow> is_closing c)"
    by (simp add: min_element_spec split: option.splits)
next
  assume "\<not> is_closing a \<and> is_closing b"
  then show "least_busy_comp a b" by (simp add: least_busy_comp_def)
next
  assume "\<not> is_closing a \<and> is_closing b"
  then show "\<not> least_busy_comp b a" by (simp add: least_busy_comp_def)
qed

section \<open>Theorems about notification\<close>

lemma quiet_refl: "notify_state p = NOTIFY_STATE_CRITICAL \<Longrightarrow> quiet_after p p"
  by (simp add: quiet_after_def)

lemma quiet_same:
  "notify_state p1 = NOTIFY_STATE_CRITICAL \<Longrightarrow> listener_events p1 = listener_events p \<Longrightarrow> quiet_after p p1"
  by (simp add: quiet_after_def)

lemma quiet_trans: "quiet_after p q \<Longrightarrow> quiet_after q r \<Longrightarrow> quiet_after p r"
proof -
  assume a: "quiet_after p q" and b: "quiet_after q r"
  from a obtain es where es: "listener_events q = listener_events p @ es" "list_all (\<lambda>e. e = on_close) es"
    unfolding quiet_after_def by (metis append_take_drop_id)
  from b obtain fs where fs: "listener_events r = listener_events q @ fs" "list_all (\<lambda>e. e = on_close) fs"
    unfolding quiet_after_def by (metis append_take_drop_id)
  from b es fs show ?thesis by (simp add: quiet_after_def)
qed

lemma quiet_maybe_closed:
  "notify_state p = NOTIFY_STATE_CRITICAL \<Longrightarrow> quiet_after p (maybe_closed p)"
  by (simp add: quiet_after_def maybe_closed_def emit_def Let_def)

lemma quiet_schedule_reconnect:
  "notify_state p = NOTIFY_STATE_CRITICAL \<Longrightarrow> quiet_after p (schedule_reconnect s d p)"
  by (simp add: quiet_after_def schedule_reconnect_def Let_def)

lemma critical_notify_up_or_down:
  "notify_state p = NOTIFY_STATE_CRITICAL \<Longrightarrow> notify_up_or_down p = p"
  by (simp add: notify_up_or_down_def)

lemma critical_notify_critical_error:
  "notify_state p = NOTIFY_STATE_CRITICAL \<Longrightarrow> notify_critical_error p = p"
  by (simp add: notify_critical_error_def)

lemma quiet_internal_close:
  "notify_state p = NOTIFY_STATE_CRITICAL \<Longrightarrow> quiet_after p (internal_close p)"
proof (cases "close_state p = CLOSE_STATE_OPEN")
  case True
  assume c: "notify_state p = NOTIFY_STATE_CRITICAL"
  define q where "q = p\<lparr>close_state := CLOSE_STATE_CLOSING,
        connections_by_shard := map (map connection_close) (connections_by_shard p),
        pending_connections := map connector_cancel (pending_connections p),
        close_state := CLOSE_STATE_WAITING_FOR_CONNECTIONS\<rparr>"
  have "quiet_after p q" using c by (simp add: q_def quiet_after_def)
  moreover have "quiet_after q (maybe_closed q)" using c by (intro quiet_maybe_closed) (simp add: q_def)
  moreover have "internal_close p = maybe_closed q" using True by (simp add: internal_close_def Let_def q_def)
  ultimately show ?thesis using quiet_trans by simp
next
  case False
  assume "notify_state p = NOTIFY_STATE_CRITICAL"
  with False show ?thesis by (simp add: internal_close_def quiet_refl)
qed

lemma quiet_close_connection:
  assumes "notify_state p = NOTIFY_STATE_CRITICAL" "close_connection c p = Inr p1"
  shows "quiet_after p p1"
proof -
  define i where "i = shard_index (conn_shard_id c)"
  define q where "q = p\<lparr>connections_by_shard :=
                        (connections_by_shard p)
                          [i := filter (\<lambda>x. conn_id x \<noteq> conn_id c) (connections_by_shard p ! i)]\<rparr>"
  have q: "quiet_after p q" "notify_state q = NOTIFY_STATE_CRITICAL"
    using assms(1) by (simp_all add: q_def quiet_after_def)
  from assms(2) have "p1 = maybe_closed q \<or> p1 = schedule_reconnect None (Some (conn_shard_id c)) (notify_up_or_down q)"
    by (auto simp add: close_connection_def Let_def q_def i_def split: if_splits)
  then have "quiet_after q p1"
    using q(2) by (auto simp add: critical_notify_up_or_down intro: quiet_maybe_closed quiet_schedule_reconnect)
  with q(1) show ?thesis by (rule quiet_trans)
qed

lemma quiet_on_reconnect:
  assumes "notify_state p = NOTIFY_STATE_CRITICAL" "on_reconnect k outcome p = Inr p1"
  shows "quiet_after p p1"
proof -
  define q where "q = p\<lparr>pending_connections :=
                  filter (\<lambda>x. connector_id x \<noteq> connector_id k) (pending_connections p),
                  reconnection_schedules := (reconnection_schedules p)(connector_id k := None)\<rparr>"
  have q: "quiet_after p q" "notify_state q = NOTIFY_STATE_CRITICAL"
    using assms(1) by (simp_all add: q_def quiet_after_def)
  from assms(2) obtain s where s: "reconnection_schedules p (connector_id k) = Some s"
    by (auto simp add: on_reconnect_def Let_def split: option.splits)
  have "quiet_after q p1"
  proof (cases "close_state p = CLOSE_STATE_OPEN")
    case False
    with assms(2) s have "p1 = maybe_closed q" by (simp add: on_reconnect_def Let_def q_def)
    with q(2) show ?thesis by (simp add: quiet_maybe_closed)
  next
    case op: True
    show ?thesis
    proof (cases outcome)
      case (CONNECTOR_OK conn)
      define q' where "q' = q\<lparr>closed_unpooled := closed_unpooled q @ [conn_id conn]\<rparr>"
      from CONNECTOR_OK assms(2) s op have "(\<exists>p3. add_connection conn q = Inr p3 \<and> p1 = notify_up_or_down p3)
          \<or> p1 = schedule_reconnect (Some s) (desired_shard_num k) q'"
        by (auto simp add: on_reconnect_def Let_def q_def q'_def split: if_splits sum.splits)
      then show ?thesis
      proof
        assume "\<exists>p3. add_connection conn q = Inr p3 \<and> p1 = notify_up_or_down p3"
        then obtain p3 where p3: "add_connection conn q = Inr p3" "p1 = notify_up_or_down p3" by blast
        from p3(1) q(2) have "notify_state p3 = NOTIFY_STATE_CRITICAL" "listener_events p3 = listener_events q"
          by (auto simp add: add_connection_def Let_def split: if_splits)
        with p3(2) show ?thesis by (simp add: critical_notify_up_or_down quiet_same)
      next
        assume p1: "p1 = schedule_reconnect (Some s) (desired_shard_num k) q'"
        have "quiet_after q q'" "notify_state q' = NOTIFY_STATE_CRITICAL"
          using q(2) by (simp_all add: q'_def quiet_after_def)
        with p1 show ?thesis using quiet_trans quiet_schedule_reconnect by blast
      qed
    next
      case CONNECTOR_CANCELED
      with assms(2) s op have "p1 = q" by (simp add: on_reconnect_def Let_def q_def)
      with q(2) show ?thesis by (simp add: quiet_refl)
    next
      case CONNECTOR_CRITICAL_ERROR
      with assms(2) s op have "p1 = internal_close (notify_critical_error q)"
        by (simp add: on_reconnect_def Let_def q_def)
      with q(2) show ?thesis by (simp add: critical_notify_critical_error quiet_internal_close)
    next
      case CONNECTOR_TRANSIENT_ERROR
      with assms(2) s op have "p1 = schedule_reconnect (Some s) (desired_shard_num k) q"
        by (simp add: on_reconnect_def Let_def q_def)
      with q(2) show ?thesis by (simp add: quiet_schedule_reconnect)
    qed
  qed
  with q(1) show ?thesis by (rule quiet_trans)
qed

lemma quiet_step:
  "notify_state p = NOTIFY_STATE_CRITICAL \<Longrightarrow> step x p = Inr p1 \<Longrightarrow> quiet_after p p1"
  by (cases x) (auto intro: quiet_internal_close quiet_close_connection quiet_on_reconnect)

lemma quiet_run:
  "notify_state p = NOTIFY_STATE_CRITICAL \<Longrightarrow> run xs p = Inr p1 \<Longrightarrow> quiet_after p p1"
proof (induction xs arbitrary: p)
  case Nil
  then show ?case by (simp add: quiet_refl)
next
  case (Cons x xs)
  from Cons.prems obtain q where q: "step x p = Inr q" "run xs q = Inr p1"
    by (auto split: sum.splits)
  from quiet_step [OF Cons.prems(1) q(1)] have a: "quiet_after p q" .
  then have "notify_state q = NOTIFY_STATE_CRITICAL" by (simp add: quiet_after_def)
  from Cons.IH [OF this q(2)] a show ?case using quiet_trans by blast
qed

lemma maybe_closed_down_only_from_up:
  "notify_state p \<noteq> NOTIFY_STATE_UP \<Longrightarrow>
     listener_events (maybe_closed p) = listener_events p
     \<or> listener_events (maybe_closed p) = listener_events p @ [on_close]"
  by (simp add: maybe_closed_def emit_def Let_def)

text \<open>
  Claim C9. Once the notify state is \<open>CRITICAL\<close> it stays so over every run, and the
  listener sees nothing but \<open>on_close\<close> from then on: no \<open>on_pool_up\<close>, no \<open>on_pool_down\<close>,
  no second \<open>on_pool_critical_error\<close>. Over every run from a construction the number of
  \<open>on_pool_critical_error\<close> events is 1 in the state \<open>CRITICAL\<close> and 0 otherwise, so at most
  one per pool. In the state \<open>CRITICAL\<close>, \<open>notify_up_or_down\<close> and \<open>notify_critical_error\<close>
  change nothing, and \<open>maybe_closed\<close> emits \<open>on_pool_down\<close> from no state but \<open>UP\<close>.
\<close>

theorem critical_is_terminal:
  "(notify_state p = NOTIFY_STATE_CRITICAL \<and> run xs p = Inr p1 \<longrightarrow> quiet_after p p1)
   \<and> (ConnectionPool_new connections si per_host = Inr p0 \<and> run ys p0 = Inr p2 \<longrightarrow>
        count_list (listener_events p2) on_pool_critical_error
          = (if notify_state p2 = NOTIFY_STATE_CRITICAL then 1 else 0))
   \<and> (notify_state p = NOTIFY_STATE_CRITICAL \<longrightarrow>
        notify_up_or_down p = p \<and> notify_critical_error p = p)
   \<and> (notify_state p \<noteq> NOTIFY_STATE_UP \<longrightarrow>
        listener_events (maybe_closed p) = listener_events p
        \<or> listener_events (maybe_closed p) = listener_events p @ [on_close])"
proof (intro conjI impI)
  assume "notify_state p = NOTIFY_STATE_CRITICAL \<and> run xs p = Inr p1"
  then show "quiet_after p p1" using quiet_run by blast
next
  assume "ConnectionPool_new connections si per_host = Inr p0 \<and> run ys p0 = Inr p2"
  then have "pool_inv p2" using inv_new inv_run by blast
  then show "count_list (listener_events p2) on_pool_critical_error
          = (if notify_state p2 = NOTIFY_STATE_CRITICAL then 1 else 0)"
    by (simp add: pool_inv_def)
next
  assume "notify_state p = NOTIFY_STATE_CRITICAL"
  then show "notify_up_or_down p = p" by (rule critical_notify_up_or_down)
next
  assume "notify_state p = NOTIFY_STATE_CRITICAL"
  then show "notify_critical_error p = p" by (rule critical_notify_critical_error)
next
  assume "notify_state p \<noteq> NOTIFY_STATE_UP"
  then show "listener_events (maybe_closed p) = listener_events p
        \<or> listener_events (maybe_closed p) = listener_events p @ [on_close]"
    by (rule maybe_closed_down_only_from_up)
qed

section \<open>Theorems about closing\<close>

lemma has_connections_closed:
  "has_connections (p\<lparr>connections_by_shard := map (map connection_close) (connections_by_shard p)\<rparr>)
     = has_connections p"
  by (simp add: has_connections_def list_ex_iff)

lemma internal_close_open:
  assumes "close_state p = CLOSE_STATE_OPEN"
  shows "map (map conn_id) (connections_by_shard (internal_close p)) = map (map conn_id) (connections_by_shard p)
     \<and> (\<forall>v \<in> set (connections_by_shard (internal_close p)). \<forall>c \<in> set v. is_closing c)
     \<and> map connector_id (pending_connections (internal_close p)) = map connector_id (pending_connections p)
     \<and> (\<forall>k \<in> set (pending_connections (internal_close p)). cancel_called k)
     \<and> close_state (internal_close p) =
         (if has_connections p \<or> pending_connections p \<noteq> [] then CLOSE_STATE_WAITING_FOR_CONNECTIONS
          else CLOSE_STATE_CLOSED)"
  using assms
  by (auto simp add: internal_close_def maybe_closed_def Let_def emit_def connection_close_def
        connector_cancel_def has_connections_def list_ex_iff)

lemma internal_close_not_open: "close_state p \<noteq> CLOSE_STATE_OPEN \<Longrightarrow> internal_close p = p"
  by (simp add: internal_close_def)

lemma internal_close_state: "close_state (internal_close p) \<noteq> CLOSE_STATE_OPEN"
  by (auto simp add: internal_close_def maybe_closed_def Let_def emit_def)

lemma internal_close_idem: "internal_close (internal_close p) = internal_close p"
  using internal_close_state [of p] by (rule internal_close_not_open)

lemma maybe_closed_iff:
  "close_state (maybe_closed p) = CLOSE_STATE_CLOSED \<longleftrightarrow>
     close_state p = CLOSE_STATE_CLOSED
     \<or> (close_state p = CLOSE_STATE_WAITING_FOR_CONNECTIONS \<and> \<not> has_connections p
         \<and> pending_connections p = [])"
  by (auto simp add: maybe_closed_def Let_def emit_def)

lemma maybe_closed_terminal:
  "close_state p = CLOSE_STATE_WAITING_FOR_CONNECTIONS \<and> \<not> has_connections p
     \<and> pending_connections p = [] \<Longrightarrow>
   listener_events (maybe_closed p) =
     listener_events p @ (if notify_state p = NOTIFY_STATE_UP then [on_pool_down] else []) @ [on_close]
   \<and> ref_count (maybe_closed p) = ref_count p - 1
   \<and> close_state (maybe_closed p) = CLOSE_STATE_CLOSED"
  by (simp add: maybe_closed_def Let_def emit_def)

lemma maybe_closed_otherwise:
  "\<not> (close_state p = CLOSE_STATE_WAITING_FOR_CONNECTIONS \<and> \<not> has_connections p
     \<and> pending_connections p = []) \<Longrightarrow> maybe_closed p = p"
  by (auto simp add: maybe_closed_def)

text \<open>
  Claim C6. On an open pool \<open>internal_close\<close> closes every wrapped connection, cancels
  every pending connector and leaves the pool waiting for them, or closed when there is
  nothing to wait for; on a pool that is not open it changes nothing, so a second call has
  no effect. \<open>maybe_closed\<close> makes the pool \<open>CLOSED\<close> exactly when it waits for connections
  and has neither a connection nor a pending attempt; it then emits \<open>on_pool_down\<close> only if
  the notify state is \<open>UP\<close>, then \<open>on_close\<close>, and releases one reference; otherwise it
  changes nothing. Over every run from a construction, \<open>on_close\<close> has been emitted once in
  the state \<open>CLOSED\<close> and never before, and the self-reference is held until then.
\<close>

theorem close_is_idempotent:
  "(close_state p = CLOSE_STATE_OPEN \<longrightarrow>
      map (map conn_id) (connections_by_shard (internal_close p))
        = map (map conn_id) (connections_by_shard p)
      \<and> (\<forall>v \<in> set (connections_by_shard (internal_close p)). \<forall>c \<in> set v. is_closing c)
      \<and> map connector_id (pending_connections (internal_close p))
        = map connector_id (pending_connections p)
      \<and> (\<forall>k \<in> set (pending_connections (internal_close p)). cancel_called k)
      \<and> close_state (internal_close p) =
          (if has_connections p \<or> pending_connections p \<noteq> []
           then CLOSE_STATE_WAITING_FOR_CONNECTIONS else CLOSE_STATE_CLOSED))
   \<and> (close_state p \<noteq> CLOSE_STATE_OPEN \<longrightarrow> internal_close p = p)
   \<and> internal_close (internal_close p) = internal_close p
   \<and> (close_state (maybe_closed p) = CLOSE_STATE_CLOSED \<longleftrightarrow>
        close_state p = CLOSE_STATE_CLOSED
        \<or> (close_state p = CLOSE_STATE_WAITING_FOR_CONNECTIONS \<and> \<not> has_connections p
            \<and> pending_connections p = []))
   \<and> (close_state p = CLOSE_STATE_WAITING_FOR_CONNECTIONS \<and> \<not> has_connections p
        \<and> pending_connections p = [] \<longrightarrow>
        listener_events (maybe_closed p) =
          listener_events p
            @ (if notify_state p = NOTIFY_STATE_UP then [on_pool_down] else []) @ [on_close]
        \<and> ref_count (maybe_closed p) = ref_count p - 1)
   \<and> (\<not> (close_state p = CLOSE_STATE_WAITING_FOR_CONNECTIONS \<and> \<not> has_connections p
           \<and> pending_connections p = []) \<longrightarrow> maybe_closed p = p)
   \<and> (ConnectionPool_new connections si per_host = Inr p0 \<and> run xs p0 = Inr p1 \<longrightarrow>
        count_list (listener_events p1) on_close
          = (if close_state p1 = CLOSE_STATE_CLOSED then 1 else 0)
        \<and> ref_count p1 = (if close_state p1 = CLOSE_STATE_CLOSED then 0 else 1))"
proof -
  have g: "count_list (listener_events p1) on_close
          = (if close_state p1 = CLOSE_STATE_CLOSED then 1 else 0)
        \<and> ref_count p1 = (if close_state p1 = CLOSE_STATE_CLOSED then 0 else 1)"
    if "ConnectionPool_new connections si per_host = Inr p0 \<and> run xs p0 = Inr p1"
  proof -
    from that have "pool_inv p1" using inv_new inv_run by blast
    then show ?thesis by (simp add: pool_inv_def)
  qed
  show ?thesis
    using internal_close_open [of p] internal_close_not_open [of p] internal_close_idem [of p]
      maybe_closed_iff [of p] maybe_closed_terminal [of p] maybe_closed_otherwise [of p] g
    by blast
qed

section \<open>Theorems about the reconnect loop\<close>

text \<open>
  Claim C5. On an open pool, when a connector reports a connection whose slot is full (or
  absent), or a transient error, \<open>on_reconnect\<close> adds nothing to the slots, closes the new
  connection in the first case, and schedules one new attempt: it owns the very schedule of
  the finished attempt, with one more delay taken from it, and no new schedule is made; its
  desired shard is the one of the finished attempt (kept whenever the host advertises a
  shard-aware port, which is when a desired shard can have been set). The notify state, the
  listener's events and the close state are unchanged: no critical error is raised.
\<close>

theorem reconnect_reuses_schedule:
  assumes "close_state p = CLOSE_STATE_OPEN"
    and "reconnection_schedules p (connector_id k) = Some sched"
    and "outcome = CONNECTOR_TRANSIENT_ERROR
         \<or> (\<exists>conn. outcome = CONNECTOR_OK conn
              \<and> \<not> (shard_index (conn_shard_id conn) < length (connections_by_shard p)
                    \<and> length (connections_by_shard p ! shard_index (conn_shard_id conn))
                        < unat (num_connections_per_shard p)))"
  shows "\<exists>p1 k1. on_reconnect k outcome p = Inr p1
     \<and> pending_connections p1 =
         filter (\<lambda>x. connector_id x \<noteq> connector_id k) (pending_connections p) @ [k1]
     \<and> connector_id k1 = next_connector p
     \<and> desired_shard_num k1 = (if has_shard_aware_port p then desired_shard_num k else None)
     \<and> ((desired_shard_num k \<noteq> None \<longrightarrow> has_shard_aware_port p) \<longrightarrow>
          desired_shard_num k1 = desired_shard_num k)
     \<and> reconnection_schedules p1 (connector_id k1)
         = Some (sched\<lparr>delays_taken := delays_taken sched + 1\<rparr>)
     \<and> (desired_shard_num k1 \<noteq> None \<longrightarrow> has_shard_aware_port p1)
     \<and> delay_call k1 = delays_taken sched + 1
     \<and> next_schedule p1 = next_schedule p
     \<and> connections_by_shard p1 = connections_by_shard p
     \<and> closed_unpooled p1 =
         closed_unpooled p @ (case outcome of CONNECTOR_OK conn \<Rightarrow> [conn_id conn] | _ \<Rightarrow> [])
     \<and> notify_state p1 = notify_state p
     \<and> listener_events p1 = listener_events p
     \<and> close_state p1 = CLOSE_STATE_OPEN"
  using assms
  by (auto simp add: on_reconnect_def schedule_reconnect_def has_shard_aware_port_def Let_def
        split: option.splits)


lemma frame_schedule_reconnect:
  "connections_by_shard (schedule_reconnect s d p) = connections_by_shard p
   \<and> notify_state (schedule_reconnect s d p) = notify_state p
   \<and> close_state (schedule_reconnect s d p) = close_state p
   \<and> listener_events (schedule_reconnect s d p) = listener_events p
   \<and> num_connections_per_shard (schedule_reconnect s d p) = num_connections_per_shard p
   \<and> host_sharding_info (schedule_reconnect s d p) = host_sharding_info p"
  by (simp add: schedule_reconnect_def Let_def)

lemma attempts_schedule_reconnect: "attempts_ok p \<Longrightarrow> attempts_ok (schedule_reconnect s d p)"
  by (auto simp add: attempts_ok_def schedule_reconnect_def Let_def)

lemma frame_schedule_times:
  "connections_by_shard (schedule_times i n p) = connections_by_shard p
   \<and> notify_state (schedule_times i n p) = notify_state p
   \<and> close_state (schedule_times i n p) = close_state p
   \<and> listener_events (schedule_times i n p) = listener_events p
   \<and> (attempts_ok p \<longrightarrow> attempts_ok (schedule_times i n p))"
  by (induction i arbitrary: p) (simp_all add: frame_schedule_reconnect attempts_schedule_reconnect)

lemma frame_schedule_missing:
  "connections_by_shard (schedule_missing ns p) = connections_by_shard p
   \<and> notify_state (schedule_missing ns p) = notify_state p
   \<and> close_state (schedule_missing ns p) = close_state p
   \<and> listener_events (schedule_missing ns p) = listener_events p
   \<and> (attempts_ok p \<longrightarrow> attempts_ok (schedule_missing ns p))"
  by (induction ns arbitrary: p) (simp_all add: frame_schedule_times)

lemma cold_start:
  assumes "ConnectionPool_new [] si n = Inr p"
  shows "listener_events p = [on_pool_down] \<and> notify_state p = NOTIFY_STATE_DOWN
     \<and> close_state p = CLOSE_STATE_OPEN \<and> \<not> has_connections p \<and> attempts_ok p"
proof -
  define p0 where "p0 = \<lparr>host_sharding_info = si,
                  num_connections_per_host = n,
                  connections_by_shard =
                    (case si of
                       None \<Rightarrow> replicate 1 []
                     | Some i \<Rightarrow> replicate (unat (shards_count i)) []),
                  num_connections_per_shard =
                    (case si of
                       None \<Rightarrow> n
                     | Some i \<Rightarrow> n div shards_count i
                         + (if n mod shards_count i \<noteq> 0 then 1 else 0)),
                  pending_connections = [],
                  reconnection_schedules = Map.empty,
                  close_state = CLOSE_STATE_OPEN,
                  notify_state = NOTIFY_STATE_NEW,
                  listener_events = [],
                  closed_unpooled = [],
                  ref_count = 1,
                  next_connector = 0,
                  next_schedule = 0\<rparr>"
  have h: "\<not> has_connections p0"
    by (cases si) (simp_all add: p0_def has_connections_def list_ex_iff)
  define q where "q = notify_up_or_down p0"
  from h have q: "listener_events q = [on_pool_down]" "notify_state q = NOTIFY_STATE_DOWN"
      "close_state q = CLOSE_STATE_OPEN" "\<not> has_connections q" "attempts_ok q"
    by (simp_all add: q_def notify_up_or_down_def emit_def p0_def attempts_ok_def has_connections_def)
  from assms have "p = schedule_missing [0 ..< length (connections_by_shard q)] q"
    unfolding ConnectionPool_new_def p0_def [symmetric] q_def
    by (auto simp add: Let_def split: if_splits)
  with q frame_schedule_missing [of "[0 ..< length (connections_by_shard q)]" q]
  show ?thesis by (simp add: has_connections_def)
qed

lemma critical_on_empty_pool:
  assumes "close_state p = CLOSE_STATE_OPEN" "\<not> has_connections p" "attempts_ok p"
    "notify_state p = NOTIFY_STATE_DOWN" "k \<in> set (pending_connections p)"
  shows "\<exists>p1. on_reconnect k CONNECTOR_CRITICAL_ERROR p = Inr p1
     \<and> notify_state p1 = NOTIFY_STATE_CRITICAL
     \<and> listener_events p1 = listener_events p @ [on_pool_critical_error]
         @ (if pending_connections p1 = [] then [on_close] else [])
     \<and> close_state p1 = (if pending_connections p1 = [] then CLOSE_STATE_CLOSED
                          else CLOSE_STATE_WAITING_FOR_CONNECTIONS)
     \<and> (\<forall>c \<in> set (pending_connections p1). cancel_called c)
     \<and> \<not> has_connections p1
     \<and> distinct (map connector_id (pending_connections p1))
     \<and> (\<forall>c \<in> set (pending_connections p1). reconnection_schedules p1 (connector_id c) \<noteq> None)"
proof -
  from assms(3,5) obtain s where s: "reconnection_schedules p (connector_id k) = Some s"
    by (auto simp add: attempts_ok_def)
  define rest where "rest = filter (\<lambda>x. connector_id x \<noteq> connector_id k) (pending_connections p)"
  have d: "distinct (map connector_id rest)"
    using assms(3) by (simp add: attempts_ok_def rest_def distinct_map_filter)
  have r: "\<forall>c \<in> set rest. reconnection_schedules p (connector_id c) \<noteq> None \<and> connector_id c \<noteq> connector_id k"
    using assms(3) by (auto simp add: attempts_ok_def rest_def)
  have hc: "\<not> list_ex (\<lambda>v. v \<noteq> []) (map (map connection_close) (connections_by_shard p))"
    using assms(2) by (simp add: has_connections_def list_ex_iff)
  show ?thesis
    using assms(1,4) s d r hc
    by (auto simp add: on_reconnect_def notify_critical_error_def internal_close_def
        maybe_closed_def emit_def Let_def rest_def [symmetric] has_connections_def
        connector_cancel_def comp_def)
qed

lemma drain:
  assumes "close_state q = CLOSE_STATE_WAITING_FOR_CONNECTIONS" "\<not> has_connections q"
    "pending_connections q = ks" "ks \<noteq> []" "distinct (map connector_id ks)"
    "\<forall>c \<in> set ks. reconnection_schedules q (connector_id c) \<noteq> None"
  shows "\<exists>q1. run (map (\<lambda>c. OnReconnect c CONNECTOR_CANCELED) ks) q = Inr q1
     \<and> close_state q1 = CLOSE_STATE_CLOSED
     \<and> notify_state q1 = notify_state q
     \<and> listener_events q1 = listener_events q
         @ (if notify_state q = NOTIFY_STATE_UP then [on_pool_down] else []) @ [on_close]"
  using assms
proof (induction ks arbitrary: q)
  case Nil
  then show ?case by simp
next
  case (Cons k ks)
  from Cons.prems obtain s where s: "reconnection_schedules q (connector_id k) = Some s" by auto
  have "connector_id k \<notin> connector_id ` set ks" using Cons.prems(5) by simp
  then have ne: "\<forall>x \<in> set ks. connector_id x \<noteq> connector_id k" by (metis imageI)
  then have f: "filter (\<lambda>x. connector_id x \<noteq> connector_id k) (k # ks) = ks"
    by (simp add: filter_id_conv)
  define q2 where "q2 = q\<lparr>pending_connections := ks,
      reconnection_schedules := (reconnection_schedules q)(connector_id k := None)\<rparr>"
  have st: "on_reconnect k CONNECTOR_CANCELED q = Inr (maybe_closed q2)"
    using Cons.prems(1,3) s f by (simp add: on_reconnect_def Let_def q2_def)
  show ?case
  proof (cases "ks = []")
    case True
    then have "close_state (maybe_closed q2) = CLOSE_STATE_CLOSED
        \<and> notify_state (maybe_closed q2) = notify_state q
        \<and> listener_events (maybe_closed q2) = listener_events q
           @ (if notify_state q = NOTIFY_STATE_UP then [on_pool_down] else []) @ [on_close]"
      using Cons.prems(1,2) by (simp add: maybe_closed_def q2_def emit_def Let_def has_connections_def)
    with st True show ?thesis by simp
  next
    case False
    then have m: "maybe_closed q2 = q2" by (simp add: maybe_closed_def q2_def)
    have "\<exists>q1. run (map (\<lambda>c. OnReconnect c CONNECTOR_CANCELED) ks) q2 = Inr q1
       \<and> close_state q1 = CLOSE_STATE_CLOSED
       \<and> notify_state q1 = notify_state q2
       \<and> listener_events q1 = listener_events q2
         @ (if notify_state q2 = NOTIFY_STATE_UP then [on_pool_down] else []) @ [on_close]"
    proof (rule Cons.IH)
      show "close_state q2 = CLOSE_STATE_WAITING_FOR_CONNECTIONS" using Cons.prems(1) by (simp add: q2_def)
      show "\<not> has_connections q2" using Cons.prems(2) by (simp add: q2_def has_connections_def)
      show "pending_connections q2 = ks" by (simp add: q2_def)
      show "ks \<noteq> []" by (rule False)
      show "distinct (map connector_id ks)" using Cons.prems(5) by simp
      show "\<forall>c \<in> set ks. reconnection_schedules q2 (connector_id c) \<noteq> None"
        using Cons.prems(6) ne by (simp add: q2_def)
    qed
    with st m show ?thesis by (simp add: q2_def)
  qed
qed

text \<open>
  Claim C7, as the code supports it. A pool constructed with no connection emits
  \<open>on_pool_down\<close> at once (from \<open>NEW\<close> to \<open>DOWN\<close>) and stays open. When one of its pending
  attempts then fails with a critical error, the pool emits \<open>on_pool_critical_error\<close>,
  cancels the other attempts and waits for them; once they have reported, it is \<open>CLOSED\<close>
  and the listener has seen \<open>on_pool_down\<close>, \<open>on_pool_critical_error\<close>, \<open>on_close\<close> and no
  more. On the notify dimension \<open>notify_up_or_down\<close> emits \<open>on_pool_down\<close> exactly from
  \<open>NEW\<close> or \<open>UP\<close> with no connection, and \<open>maybe_closed\<close> emits it from no state but \<open>UP\<close>.
\<close>

theorem cold_start_critical_error:
  "(ConnectionPool_new [] si per_host = Inr p0 \<and> k \<in> set (pending_connections p0) \<longrightarrow>
      listener_events p0 = [on_pool_down] \<and> notify_state p0 = NOTIFY_STATE_DOWN
      \<and> close_state p0 = CLOSE_STATE_OPEN
      \<and> (\<exists>p1 p2. on_reconnect k CONNECTOR_CRITICAL_ERROR p0 = Inr p1
            \<and> notify_state p1 = NOTIFY_STATE_CRITICAL
            \<and> listener_events p1 = [on_pool_down, on_pool_critical_error]
                @ (if pending_connections p1 = [] then [on_close] else [])
            \<and> close_state p1 = (if pending_connections p1 = [] then CLOSE_STATE_CLOSED
                                 else CLOSE_STATE_WAITING_FOR_CONNECTIONS)
            \<and> (\<forall>c \<in> set (pending_connections p1). cancel_called c)
            \<and> run (map (\<lambda>c. OnReconnect c CONNECTOR_CANCELED) (pending_connections p1)) p1 = Inr p2
            \<and> close_state p2 = CLOSE_STATE_CLOSED
            \<and> listener_events p2 = [on_pool_down, on_pool_critical_error, on_close]))
   \<and> (listener_events (notify_up_or_down q) = listener_events q @ [on_pool_down] \<longleftrightarrow>
        (notify_state q = NOTIFY_STATE_NEW \<or> notify_state q = NOTIFY_STATE_UP)
        \<and> \<not> has_connections q)
   \<and> (notify_state q \<noteq> NOTIFY_STATE_UP \<longrightarrow>
        listener_events (maybe_closed q) = listener_events q
        \<or> listener_events (maybe_closed q) = listener_events q @ [on_close])"
proof (intro conjI impI)
  assume a: "ConnectionPool_new [] si per_host = Inr p0 \<and> k \<in> set (pending_connections p0)"
  then have c: "listener_events p0 = [on_pool_down]" "notify_state p0 = NOTIFY_STATE_DOWN"
      "close_state p0 = CLOSE_STATE_OPEN" "\<not> has_connections p0" "attempts_ok p0"
    using cold_start [of si per_host p0] by simp_all
  from c(1) show "listener_events p0 = [on_pool_down]" .
  from c(2) show "notify_state p0 = NOTIFY_STATE_DOWN" .
  from c(3) show "close_state p0 = CLOSE_STATE_OPEN" .
  from critical_on_empty_pool [OF c(3) c(4) c(5) c(2), of k] a
  obtain p1 where p1: "on_reconnect k CONNECTOR_CRITICAL_ERROR p0 = Inr p1"
      "notify_state p1 = NOTIFY_STATE_CRITICAL"
      "listener_events p1 = listener_events p0 @ [on_pool_critical_error]
         @ (if pending_connections p1 = [] then [on_close] else [])"
      "close_state p1 = (if pending_connections p1 = [] then CLOSE_STATE_CLOSED
                          else CLOSE_STATE_WAITING_FOR_CONNECTIONS)"
      "\<forall>c \<in> set (pending_connections p1). cancel_called c"
      "\<not> has_connections p1"
      "distinct (map connector_id (pending_connections p1))"
      "\<forall>c \<in> set (pending_connections p1). reconnection_schedules p1 (connector_id c) \<noteq> None"
    by blast
  have "\<exists>p2. run (map (\<lambda>c. OnReconnect c CONNECTOR_CANCELED) (pending_connections p1)) p1 = Inr p2
            \<and> close_state p2 = CLOSE_STATE_CLOSED
            \<and> listener_events p2 = [on_pool_down, on_pool_critical_error, on_close]"
  proof (cases "pending_connections p1 = []")
    case True
    with p1(3,4) c(1) show ?thesis by simp
  next
    case False
    with p1(4) have w: "close_state p1 = CLOSE_STATE_WAITING_FOR_CONNECTIONS" by simp
    from drain [OF w p1(6) refl False p1(7) p1(8)] p1(2,3) c(1) False show ?thesis by auto
  qed
  with p1 c(1) show "\<exists>p1 p2. on_reconnect k CONNECTOR_CRITICAL_ERROR p0 = Inr p1
            \<and> notify_state p1 = NOTIFY_STATE_CRITICAL
            \<and> listener_events p1 = [on_pool_down, on_pool_critical_error]
                @ (if pending_connections p1 = [] then [on_close] else [])
            \<and> close_state p1 = (if pending_connections p1 = [] then CLOSE_STATE_CLOSED
                                 else CLOSE_STATE_WAITING_FOR_CONNECTIONS)
            \<and> (\<forall>c \<in> set (pending_connections p1). cancel_called c)
            \<and> run (map (\<lambda>c. OnReconnect c CONNECTOR_CANCELED) (pending_connections p1)) p1 = Inr p2
            \<and> close_state p2 = CLOSE_STATE_CLOSED
            \<and> listener_events p2 = [on_pool_down, on_pool_critical_error, on_close]"
    by auto
next
  show "listener_events (notify_up_or_down q) = listener_events q @ [on_pool_down] \<longleftrightarrow>
        (notify_state q = NOTIFY_STATE_NEW \<or> notify_state q = NOTIFY_STATE_UP)
        \<and> \<not> has_connections q"
    by (auto simp add: notify_up_or_down_def emit_def)
next
  assume "notify_state q \<noteq> NOTIFY_STATE_UP"
  then show "listener_events (maybe_closed q) = listener_events q
        \<or> listener_events (maybe_closed q) = listener_events q @ [on_close]"
    by (rule maybe_closed_down_only_from_up)
qed

section \<open>The theorems at concrete states\<close>

lemmas pool_defs = ConnectionPool_new_def vector_max_size_def notify_up_or_down_def emit_def has_connections_def
  needed_def schedule_reconnect_def has_shard_aware_port_def Let_def on_reconnect_def
  notify_critical_error_def internal_close_def maybe_closed_def connector_cancel_def
  connection_close_def close_connection_def add_connection_def shard_index_def

lemmas example_defs = example_connector_def second_connector_def cold_pool_def example_pool_def
  example_attempt_def example_conn_def example_sharding_def

lemma schedule_times_numeral:
  "schedule_times (numeral v) shard_num p =
     schedule_times (pred_numeral v) shard_num
       (if has_shard_aware_port p
        then schedule_reconnect None (Some (of_nat shard_num)) p
        else schedule_reconnect None None p)"
  by (simp add: numeral_eq_Suc)

lemma replicate_4: "replicate 4 x = [x, x, x, x]"
  by (simp add: numeral_eq_Suc)

lemma cold_pool_new: "ConnectionPool_new [] None 2 = Inr cold_pool"
  by (simp add: pool_defs example_defs schedule_times_numeral)

text \<open>
  Claim C7 as stated fails: constructed with no connection, an un-sharded pool with one
  connection per host has already emitted \<open>on_pool_down\<close>, and after the critical error of
  its only attempt the listener has seen \<open>on_pool_down\<close> before the two other events.
\<close>

theorem cold_start_counterexample:
  "observed (ConnectionPool_new [] None 1)
     = Inr ([on_pool_down], NOTIFY_STATE_DOWN, CLOSE_STATE_OPEN)
   \<and> observed (run_from [OnReconnect example_connector CONNECTOR_CRITICAL_ERROR]
                 (ConnectionPool_new [] None 1))
     = Inr ([on_pool_down, on_pool_critical_error, on_close], NOTIFY_STATE_CRITICAL,
            CLOSE_STATE_CLOSED)"
  by (simp add: pool_defs example_defs observed_def run_from_def)

theorem cold_start_critical_error_witness:
  "ConnectionPool_new [] None 2 = Inr cold_pool
   \<and> example_connector \<in> set (pending_connections cold_pool)
   \<and> listener_events cold_pool = [on_pool_down]
   \<and> (\<exists>p1 p2. on_reconnect example_connector CONNECTOR_CRITICAL_ERROR cold_pool = Inr p1
          \<and> listener_events p1 = [on_pool_down, on_pool_critical_error]
          \<and> close_state p1 = CLOSE_STATE_WAITING_FOR_CONNECTIONS
          \<and> run (map (\<lambda>c. OnReconnect c CONNECTOR_CANCELED) (pending_connections p1)) p1 = Inr p2
          \<and> close_state p2 = CLOSE_STATE_CLOSED
          \<and> listener_events p2 = [on_pool_down, on_pool_critical_error, on_close])"
proof -
  have m: "example_connector \<in> set (pending_connections cold_pool)" by (simp add: cold_pool_def)
  from cold_start_critical_error [of None 2 cold_pool example_connector cold_pool] cold_pool_new m
  obtain p1 p2 where p: "on_reconnect example_connector CONNECTOR_CRITICAL_ERROR cold_pool = Inr p1"
    "listener_events p1 = [on_pool_down, on_pool_critical_error]
                @ (if pending_connections p1 = [] then [on_close] else [])"
    "close_state p1 = (if pending_connections p1 = [] then CLOSE_STATE_CLOSED
                                 else CLOSE_STATE_WAITING_FOR_CONNECTIONS)"
    "run (map (\<lambda>c. OnReconnect c CONNECTOR_CANCELED) (pending_connections p1)) p1 = Inr p2"
    "close_state p2 = CLOSE_STATE_CLOSED"
    "listener_events p2 = [on_pool_down, on_pool_critical_error, on_close]"
    by blast
  from p(1) have "pending_connections p1 \<noteq> []"
    by (auto simp add: pool_defs example_defs)
  with p cold_pool_new m show ?thesis by (simp add: cold_pool_def)
qed

theorem reconnect_reuses_schedule_witness:
  "close_state (example_attempt (Some example_sharding) [[example_conn 1 0 0], [], [], []])
     = CLOSE_STATE_OPEN
   \<and> reconnection_schedules
       (example_attempt (Some example_sharding) [[example_conn 1 0 0], [], [], []])
       (connector_id example_connector) = Some \<lparr>schedule_id = 0, delays_taken = 1\<rparr>
   \<and> (\<exists>p1. on_reconnect example_connector (CONNECTOR_OK (example_conn 5 0 0))
              (example_attempt (Some example_sharding) [[example_conn 1 0 0], [], [], []]) = Inr p1
          \<and> map connector_id (pending_connections p1) = [1]
          \<and> reconnection_schedules p1 1 = Some \<lparr>schedule_id = 0, delays_taken = 2\<rparr>
          \<and> connections_by_shard p1 = [[example_conn 1 0 0], [], [], []]
          \<and> closed_unpooled p1 = [5]
          \<and> notify_state p1 = NOTIFY_STATE_UP
          \<and> close_state p1 = CLOSE_STATE_OPEN)"
proof -
  let ?p = "example_attempt (Some example_sharding) [[example_conn 1 0 0], [], [], []]"
  have a: "close_state ?p = CLOSE_STATE_OPEN"
    by (simp add: example_defs)
  have b: "reconnection_schedules ?p (connector_id example_connector)
      = Some \<lparr>schedule_id = 0, delays_taken = 1\<rparr>"
    by (simp add: example_defs)
  have c: "CONNECTOR_OK (example_conn 5 0 0) = CONNECTOR_TRANSIENT_ERROR
         \<or> (\<exists>conn. CONNECTOR_OK (example_conn 5 0 0) = CONNECTOR_OK conn
              \<and> \<not> (shard_index (conn_shard_id conn) < length (connections_by_shard ?p)
                    \<and> length (connections_by_shard ?p ! shard_index (conn_shard_id conn))
                        < unat (num_connections_per_shard ?p)))"
    by (simp add: example_defs shard_index_def)
  from reconnect_reuses_schedule [OF a b c] a b show ?thesis
    by (auto simp add: example_defs)
qed

theorem close_is_idempotent_witness:
  "close_state (example_attempt None [[example_conn 1 0 0]]) = CLOSE_STATE_OPEN
   \<and> close_state (internal_close (example_attempt None [[example_conn 1 0 0]]))
       = CLOSE_STATE_WAITING_FOR_CONNECTIONS
   \<and> map (map is_closing)
        (connections_by_shard (internal_close (example_attempt None [[example_conn 1 0 0]])))
       = [[True]]
   \<and> map cancel_called
        (pending_connections (internal_close (example_attempt None [[example_conn 1 0 0]])))
       = [True]
   \<and> ConnectionPool_new [] None 2 = Inr cold_pool
   \<and> (\<exists>p1. run [Close, OnReconnect example_connector CONNECTOR_CANCELED,
                 OnReconnect second_connector CONNECTOR_CANCELED, Close] cold_pool = Inr p1
          \<and> close_state p1 = CLOSE_STATE_CLOSED
          \<and> listener_events p1 = [on_pool_down, on_close]
          \<and> count_list (listener_events p1) on_close = 1
          \<and> ref_count p1 = 0)"
proof -
  let ?p = "example_attempt None [[example_conn 1 0 0]]"
  let ?xs = "[Close, OnReconnect example_connector CONNECTOR_CANCELED,
                 OnReconnect second_connector CONNECTOR_CANCELED, Close]"
  have a: "close_state ?p = CLOSE_STATE_OPEN" by (simp add: example_defs)
  have h: "has_connections ?p" by (simp add: example_defs has_connections_def)
  obtain p1 where p1: "run ?xs cold_pool = Inr p1" "close_state p1 = CLOSE_STATE_CLOSED"
      "listener_events p1 = [on_pool_down, on_close]"
    by (simp add: pool_defs example_defs)
  from close_is_idempotent [of ?p "[]" None 2 cold_pool ?xs p1] a h p1 cold_pool_new
  show ?thesis
    by (auto simp add: example_defs connection_close_def connector_cancel_def internal_close_def
          maybe_closed_def has_connections_def Let_def)
qed

theorem critical_is_terminal_witness:
  "notify_state ((example_attempt None [[]])\<lparr>notify_state := NOTIFY_STATE_CRITICAL\<rparr>)
     = NOTIFY_STATE_CRITICAL
   \<and> (\<exists>p1. run [Close, OnReconnect example_connector CONNECTOR_CANCELED]
              ((example_attempt None [[]])\<lparr>notify_state := NOTIFY_STATE_CRITICAL\<rparr>) = Inr p1
          \<and> listener_events p1 = [on_pool_up, on_close]
          \<and> quiet_after ((example_attempt None [[]])\<lparr>notify_state := NOTIFY_STATE_CRITICAL\<rparr>) p1)
   \<and> ConnectionPool_new [] None 2 = Inr cold_pool
   \<and> (\<exists>p2. run [OnReconnect example_connector CONNECTOR_CRITICAL_ERROR,
                 OnReconnect second_connector CONNECTOR_CRITICAL_ERROR] cold_pool = Inr p2
          \<and> listener_events p2 = [on_pool_down, on_pool_critical_error, on_close]
          \<and> count_list (listener_events p2) on_pool_critical_error = 1)"
proof -
  let ?p = "(example_attempt None [[]])\<lparr>notify_state := NOTIFY_STATE_CRITICAL\<rparr>"
  let ?xs = "[Close, OnReconnect example_connector CONNECTOR_CANCELED]"
  let ?ys = "[OnReconnect example_connector CONNECTOR_CRITICAL_ERROR,
                 OnReconnect second_connector CONNECTOR_CRITICAL_ERROR]"
  have a: "notify_state ?p = NOTIFY_STATE_CRITICAL" by simp
  obtain p1 where p1: "run ?xs ?p = Inr p1" "listener_events p1 = [on_pool_up, on_close]"
    by (simp add: pool_defs example_defs)
  obtain p2 where p2: "run ?ys cold_pool = Inr p2"
      "listener_events p2 = [on_pool_down, on_pool_critical_error, on_close]"
      "notify_state p2 = NOTIFY_STATE_CRITICAL"
    by (simp add: pool_defs example_defs)
  from critical_is_terminal [of ?p ?xs p1 "[]" None 2 cold_pool ?ys p2] a p1 p2 cold_pool_new
  show ?thesis by auto
qed

theorem constructor_bounds_witness:
  "shards_in_range [example_conn 7 1 0, example_conn 8 1 0, example_conn 9 3 0] (Some example_sharding)
   \<and> (\<exists>p. ConnectionPool_new [example_conn 7 1 0, example_conn 8 1 0, example_conn 9 3 0]
             (Some example_sharding) 4 = Inr p)
   \<and> \<not> shards_in_range [example_conn 7 4 0] (Some example_sharding)
   \<and> (\<forall>p. ConnectionPool_new [example_conn 7 4 0] (Some example_sharding) 4 \<noteq> Inr p)
   \<and> ConnectionPool_new [example_conn 7 0 0] (Some (example_sharding\<lparr>shards_count := - 1\<rparr>)) 4
       = Inl LengthError"
proof -
  have a: "shards_in_range [example_conn 7 1 0, example_conn 8 1 0, example_conn 9 3 0] (Some example_sharding)"
    by (simp add: shards_in_range_def slot_count_def example_defs shard_index_def)
  have b: "\<not> shards_in_range [example_conn 7 4 0] (Some example_sharding)"
    by (simp add: shards_in_range_def slot_count_def example_defs shard_index_def)
  have c: "case Some example_sharding of
             None \<Rightarrow> True
           | Some i \<Rightarrow> shards_count i \<noteq> 0 \<and> unat (shards_count i) \<le> vector_max_size"
    by (simp add: example_defs vector_max_size_def)
  from constructor_bounds [of "[example_conn 7 1 0, example_conn 8 1 0, example_conn 9 3 0]"
      "Some example_sharding" 4] a c
  have d: "\<exists>p. ConnectionPool_new [example_conn 7 1 0, example_conn 8 1 0, example_conn 9 3 0]
             (Some example_sharding) 4 = Inr p" by blast
  from constructor_bounds [of "[example_conn 7 4 0]" "Some example_sharding" 4] b
  have e: "\<forall>p. ConnectionPool_new [example_conn 7 4 0] (Some example_sharding) 4 \<noteq> Inr p" by blast
  have f: "case Some (example_sharding\<lparr>shards_count := - 1\<rparr>) of
             None \<Rightarrow> False
           | Some i \<Rightarrow> vector_max_size < unat (shards_count i)"
    by (simp add: vector_max_size_def unsigned_minus_1_eq_mask mask_eq_exp_minus_1)
  from constructor_bounds [of "[example_conn 7 0 0]"
      "Some (example_sharding\<lparr>shards_count := - 1\<rparr>)" 4] f
  have g: "ConnectionPool_new [example_conn 7 0 0]
      (Some (example_sharding\<lparr>shards_count := - 1\<rparr>)) 4 = Inl LengthError" by blast
  from a b d e g show ?thesis by blast
qed

theorem find_least_busy_selects_witness:
  "find_least_busy
     (example_pool (Some example_sharding) [[], [example_conn 1 1 0], [example_conn 2 2 5], []])
     1234567890 = Inr (Some (example_conn 2 2 5))
   \<and> find_least_busy
     (example_pool (Some example_sharding) [[], [example_conn 1 1 0], [], []])
     1234567890 = Inr (Some (example_conn 1 1 0))
   \<and> find_least_busy
     (example_pool None [[example_conn 1 0 3, example_conn 2 0 1, example_conn 3 0 1]])
     1234567890 = Inr (Some (example_conn 2 0 1))
   \<and> (\<exists>p0. ConnectionPool_new [example_conn 1 1 0, example_conn 2 2 5] (Some example_sharding) 4
             = Inr p0
          \<and> find_least_busy p0 1234567890 = Inr (Some (example_conn 2 2 5)))"
proof -
  obtain p0 where p0:
    "ConnectionPool_new [example_conn 1 1 0, example_conn 2 2 5] (Some example_sharding) 4 = Inr p0"
    "connections_by_shard p0 = [[], [example_conn 1 1 0], [example_conn 2 2 5], []]"
    by (simp add: pool_defs example_defs schedule_times_numeral replicate_4)
  have v: "1 \<le> uint (shards_count example_sharding)" "uint (shards_count example_sharding) \<le> 2 ^ 31"
    "0 \<le> sint (sharding_ignore_MSB example_sharding)" "sint (sharding_ignore_MSB example_sharding) < 64"
    by (simp_all add: example_sharding_def)
  have r: "run [] p0 = Inr p0" by simp
  have i: "shard_index 2 = 2" by (simp add: shard_index_def)
  have t: "(1234567890 :: int64_t) \<noteq> CASS_INT64_MIN" by (simp add: CASS_INT64_MIN_def)
  have a: "find_least_busy
     (example_pool (Some example_sharding) [[], [example_conn 1 1 0], [example_conn 2 2 5], []])
     1234567890 = Inr (Some (example_conn 2 2 5))"
    using find_least_busy_selects [of 1234567890
        "example_pool (Some example_sharding) [[], [example_conn 1 1 0], [example_conn 2 2 5], []]"
        example_sharding 2] t example_shard i
    by (simp add: example_pool_def least_busy_spec_def no_lower_def example_conn_def)
  have b: "find_least_busy
     (example_pool (Some example_sharding) [[], [example_conn 1 1 0], [], []])
     1234567890 = Inr (Some (example_conn 1 1 0))"
    using find_least_busy_selects [of 1234567890
        "example_pool (Some example_sharding) [[], [example_conn 1 1 0], [], []]"
        example_sharding 2] t example_shard i
    by (simp add: example_pool_def least_busy_spec_def no_lower_def example_conn_def)
  have c: "find_least_busy
     (example_pool None [[example_conn 1 0 3, example_conn 2 0 1, example_conn 3 0 1]])
     1234567890 = Inr (Some (example_conn 2 0 1))"
    using find_least_busy_selects [of 1234567890
        "example_pool None [[example_conn 1 0 3, example_conn 2 0 1, example_conn 3 0 1]]"]
    by (simp add: example_pool_def least_busy_spec_def no_lower_def example_conn_def)
  have d: "find_least_busy p0 1234567890 = Inr (Some (example_conn 2 2 5))"
    using find_least_busy_selects [of 1234567890 p0 example_sharding _
        "[example_conn 1 1 0, example_conn 2 2 5]" 4 p0 "[]" p0] t example_shard i p0 v r
    by (auto simp add: least_busy_spec_def no_lower_def example_conn_def)
  from a b c d p0(1) show ?thesis by blast
qed

end
